theory Spec2Isabelle
  imports Complex_Main "HOL-Library.Multiset"
begin

section \<open>Dense tensors\<close>

text \<open>
  The layer \<^verbatim>\<open>Set2Set\<close> of \<^verbatim>\<open>torch_geometric/nn/glob/set2set.py\<close> computes with
  dense, contiguous tensors. A tensor is its shape together with its entries in row-major
  order, so that \<^verbatim>\<open>view\<close> is nothing but a change of shape. Entries are real numbers:
  the development idealises floating-point arithmetic as exact arithmetic.

  Every failing tensor operation is a value: \<open>RuntimeError\<close> stands for the shape errors of
  the tensor library, \<open>ValueError\<close> for a failed unpacking of \<^verbatim>\<open>x.size()\<close>.
\<close>

datatype error = RuntimeError | ValueError

record tensor =
  shape :: "nat list"
  data :: "real list"

definition ebind :: "error + 'a \<Rightarrow> ('a \<Rightarrow> error + 'b) \<Rightarrow> error + 'b" where
  "ebind m f = (case m of Inl e \<Rightarrow> Inl e | Inr v \<Rightarrow> f v)"

definition well_shaped :: "tensor \<Rightarrow> bool" where
  "well_shaped t \<longleftrightarrow> length (data t) = prod_list (shape t)"

text \<open>Entry \<open>(i, j)\<close> of a matrix and entry \<open>(i, j, k)\<close> of a rank-3 tensor.\<close>

definition at2 :: "tensor \<Rightarrow> nat \<Rightarrow> nat \<Rightarrow> real" where
  "at2 t i j = data t ! (i * (shape t ! 1) + j)"

definition at3 :: "tensor \<Rightarrow> nat \<Rightarrow> nat \<Rightarrow> nat \<Rightarrow> real" where
  "at3 t i j k = data t ! ((i * (shape t ! 1) + j) * (shape t ! 2) + k)"

text \<open>The tensor of a given shape whose entries are given by a function of the indices.\<close>

definition tabulate2 :: "nat \<Rightarrow> nat \<Rightarrow> (nat \<Rightarrow> nat \<Rightarrow> real) \<Rightarrow> tensor" where
  "tabulate2 a b f =
     \<lparr>shape = [a, b], data = map (\<lambda>n. f (n div b) (n mod b)) [0..<a * b]\<rparr>"

definition tabulate3 :: "nat \<Rightarrow> nat \<Rightarrow> nat \<Rightarrow> (nat \<Rightarrow> nat \<Rightarrow> nat \<Rightarrow> real) \<Rightarrow> tensor" where
  "tabulate3 a b c f =
     \<lparr>shape = [a, b, c],
      data = map (\<lambda>n. f (n div (b * c)) (n div c mod b) (n mod c)) [0..<a * b * c]\<rparr>"

text \<open>
  \<^verbatim>\<open>x.new_zeros(size)\<close>: the sizes are Python integers, and a negative size is refused.
\<close>

definition new_zeros :: "int list \<Rightarrow> error + tensor" where
  "new_zeros sz =
     (if list_ex (\<lambda>d. d < 0) sz then Inl RuntimeError
      else Inr \<lparr>shape = map nat sz, data = replicate (prod_list (map nat sz)) 0\<rparr>)"

text \<open>
  \<^verbatim>\<open>t.view(size)\<close> on a contiguous tensor keeps the entries and replaces the shape. One
  size may be \<open>-1\<close>: it is inferred from the number of entries, unless the other sizes
  multiply to zero or do not divide it. Any other negative size is refused, and so is a
  shape with a different number of entries.
\<close>

definition view :: "tensor \<Rightarrow> int list \<Rightarrow> error + tensor" where
  "view t sz =
     (if list_ex (\<lambda>d. d < - 1) sz then Inl RuntimeError
      else case filter (\<lambda>d. d = - 1) sz of
        [] \<Rightarrow>
          if prod_list (map nat sz) = length (data t)
          then Inr \<lparr>shape = map nat sz, data = data t\<rparr>
          else Inl RuntimeError
      | [_] \<Rightarrow>
          (let p = prod_list (map nat (filter (\<lambda>d. d \<noteq> - 1) sz)) in
           if p = 0 \<or> length (data t) mod p \<noteq> 0 then Inl RuntimeError
           else Inr \<lparr>shape = map (\<lambda>d. if d = - 1 then length (data t) div p else nat d) sz,
                     data = data t\<rparr>)
      | _ \<Rightarrow> Inl RuntimeError)"

text \<open>
  Broadcasting of one dimension: equal sizes, or one of them is 1.
\<close>

definition bdim :: "nat \<Rightarrow> nat \<Rightarrow> nat option" where
  "bdim a b = (if a = b then Some a else if a = 1 then Some b else if b = 1 then Some a else None)"

text \<open>
  The operations below are the tensor library's, at the ranks at which \<^verbatim>\<open>forward\<close>
  applies them: the product \<^verbatim>\<open>s * t\<close> of two rank-3 tensors with broadcasting,
  \<^verbatim>\<open>t.sum(dim=-1)\<close> of a rank-3 tensor, \<^verbatim>\<open>torch.softmax(t, dim=-1)\<close> of a matrix,
  \<^verbatim>\<open>t.sum(dim=1, keepdim=True)\<close> of a rank-3 tensor and \<^verbatim>\<open>torch.cat([s, t], dim=-1)\<close>
  of two rank-3 tensors. \<^verbatim>\<open>forward\<close> unpacks \<^verbatim>\<open>x.size()\<close> into three sizes and
  builds every other operand by a \<^verbatim>\<open>view\<close> with three sizes or by one of these
  operations, so no other rank reaches them; the models answer \<open>RuntimeError\<close> there.
\<close>

definition mul3 :: "tensor \<Rightarrow> tensor \<Rightarrow> error + tensor" where
  "mul3 s t =
     (case (shape s, shape t) of
        ([a, b, c], [a', b', c']) \<Rightarrow>
          (case (bdim a a', bdim b b', bdim c c') of
             (Some p, Some q, Some r) \<Rightarrow>
               Inr (tabulate3 p q r (\<lambda>i j k.
                 at3 s (if a = 1 then 0 else i) (if b = 1 then 0 else j) (if c = 1 then 0 else k) *
                 at3 t (if a' = 1 then 0 else i) (if b' = 1 then 0 else j) (if c' = 1 then 0 else k)))
           | _ \<Rightarrow> Inl RuntimeError)
      | _ \<Rightarrow> Inl RuntimeError)"

definition sum_last :: "tensor \<Rightarrow> error + tensor" where
  "sum_last t =
     (case shape t of
        [a, b, c] \<Rightarrow> Inr (tabulate2 a b (\<lambda>i j. sum_list (map (\<lambda>k. at3 t i j k) [0..<c])))
      | _ \<Rightarrow> Inl RuntimeError)"

definition softmax_last :: "tensor \<Rightarrow> error + tensor" where
  "softmax_last t =
     (case shape t of
        [a, b] \<Rightarrow>
          Inr (tabulate2 a b (\<lambda>i j.
            exp (at2 t i j) / sum_list (map (\<lambda>j'. exp (at2 t i j')) [0..<b])))
      | _ \<Rightarrow> Inl RuntimeError)"

definition sum_dim1_keepdim :: "tensor \<Rightarrow> error + tensor" where
  "sum_dim1_keepdim t =
     (case shape t of
        [a, b, c] \<Rightarrow> Inr (tabulate3 a 1 c (\<lambda>i j k. sum_list (map (\<lambda>j'. at3 t i j' k) [0..<b])))
      | _ \<Rightarrow> Inl RuntimeError)"

definition cat_last :: "tensor \<Rightarrow> tensor \<Rightarrow> error + tensor" where
  "cat_last s t =
     (case (shape s, shape t) of
        ([a, b, c], [a', b', c']) \<Rightarrow>
          if a = a' \<and> b = b'
          then Inr (tabulate3 a b (c + c') (\<lambda>i j k. if k < c then at3 s i j k else at3 t i j (k - c)))
          else Inl RuntimeError
      | _ \<Rightarrow> Inl RuntimeError)"

section \<open>The layer\<close>

text \<open>
  The fields of a \<^verbatim>\<open>Set2Set\<close> object. The sizes are Python integers. The field
  \<open>lstm\<close> holds the weights of the \<^verbatim>\<open>torch.nn.LSTM\<close> the object owns; their type
  is left open, the LSTM being a collaborator of the layer.
\<close>

record 'w Set2Set =
  in_channels :: int
  out_channels :: int
  processing_steps :: int
  num_layers :: int
  lstm :: 'w

text \<open>
  \<^verbatim>\<open>reset_parameters\<close> and \<^verbatim>\<open>__init__\<close>. The constructor \<open>LSTM\<close> of the recurrent
  primitive (input size, hidden size, number of layers) and the re-initialisation
  \<open>reset\<close> of its weights are parameters; either may raise. The layer itself checks none
  of its arguments.
\<close>

definition reset_parameters :: "('w \<Rightarrow> error + 'w) \<Rightarrow> 'w Set2Set \<Rightarrow> error + 'w Set2Set" where
  "reset_parameters reset slf = ebind (reset (lstm slf)) (\<lambda>w. Inr (slf\<lparr>lstm := w\<rparr>))"

definition Set2Set_init ::
  "(int \<Rightarrow> int \<Rightarrow> int \<Rightarrow> error + 'w) \<Rightarrow> ('w \<Rightarrow> error + 'w) \<Rightarrow> int \<Rightarrow> int \<Rightarrow> int \<Rightarrow>
     error + 'w Set2Set" where
  "Set2Set_init LSTM reset inc steps layers =
     (let in_c = inc; out_c = 2 * inc in
      ebind (LSTM out_c in_c layers) (\<lambda>w.
        reset_parameters reset
          \<lparr>in_channels = in_c, out_channels = out_c, processing_steps = steps,
           num_layers = layers, lstm = w\<rparr>))"

text \<open>
  The state of one call of \<^verbatim>\<open>forward\<close>: the object, the recurrent state \<open>h\<close> (the pair
  of hidden and cell state), the query \<open>q_star\<close>, and a ghost counter of the calls of the
  recurrent primitive, which the source does not have.
\<close>

record 'w frame =
  self :: "'w Set2Set"
  h :: "tensor \<times> tensor"
  q_star :: tensor
  lstm_calls :: nat

type_synonym 'w lstm_call =
  "'w \<Rightarrow> tensor \<Rightarrow> tensor \<times> tensor \<Rightarrow> error + (tensor \<times> (tensor \<times> tensor))"

text \<open>Line 57, the scores; lines 58 and 59, the weights; line 60, the readout.\<close>

definition scores :: "tensor \<Rightarrow> tensor \<Rightarrow> error + tensor" where
  "scores x q = ebind (mul3 x q) sum_last"

definition weights :: "tensor \<Rightarrow> nat \<Rightarrow> nat \<Rightarrow> error + tensor" where
  "weights e batch_size max_nodes =
     ebind (softmax_last e) (\<lambda>a. view a [int batch_size, int max_nodes, 1])"

definition readout :: "tensor \<Rightarrow> tensor \<Rightarrow> error + tensor" where
  "readout a x = ebind (mul3 a x) sum_dim1_keepdim"

text \<open>One round of the loop, lines 55 to 62.\<close>

definition body :: "'w lstm_call \<Rightarrow> tensor \<Rightarrow> nat \<Rightarrow> nat \<Rightarrow> 'w frame \<Rightarrow> error + 'w frame" where
  "body call x batch_size max_nodes fr =
     ebind (call (lstm (self fr)) (q_star fr) (h fr)) (\<lambda>(q, hc).
     ebind (view q [int batch_size, 1, in_channels (self fr)]) (\<lambda>q.
     ebind (scores x q) (\<lambda>e.
     ebind (weights e batch_size max_nodes) (\<lambda>a.
     ebind (readout a x) (\<lambda>r.
     ebind (cat_last q r) (\<lambda>qs.
     ebind (view qs [1, int batch_size, out_channels (self fr)]) (\<lambda>qs.
     Inr (fr\<lparr>h := hc, q_star := qs, lstm_calls := lstm_calls fr + 1\<rparr>))))))))"

text \<open>\<^verbatim>\<open>for i in range(self.processing_steps)\<close>, as a recursion on the number of rounds left.\<close>

fun loop :: "'w lstm_call \<Rightarrow> tensor \<Rightarrow> nat \<Rightarrow> nat \<Rightarrow> nat \<Rightarrow> 'w frame \<Rightarrow> error + 'w frame" where
  "loop call x batch_size max_nodes 0 fr = Inr fr"
| "loop call x batch_size max_nodes (Suc n) fr =
     ebind (body call x batch_size max_nodes fr) (loop call x batch_size max_nodes n)"

text \<open>
  \<^verbatim>\<open>forward\<close>. The batching primitive \<^verbatim>\<open>to_batch\<close> and the call of the LSTM are
  parameters. \<^verbatim>\<open>range(n)\<close> is empty for \<open>n \<le> 0\<close>, so the loop runs \<open>nat n\<close> rounds.
  The result is the returned tensor together with the frame at the return.
\<close>

definition forward ::
  "('x \<Rightarrow> 'b \<Rightarrow> error + (tensor \<times> 'n)) \<Rightarrow> 'w lstm_call \<Rightarrow> 'w Set2Set \<Rightarrow> 'x \<Rightarrow> 'b \<Rightarrow>
     error + (tensor \<times> 'w frame)" where
  "forward to_batch call slf x batch =
     ebind (to_batch x batch) (\<lambda>(x, _).
     case shape x of
       [batch_size, max_nodes, _] \<Rightarrow>
         ebind (new_zeros [num_layers slf, int batch_size, in_channels slf]) (\<lambda>h0.
         ebind (new_zeros [num_layers slf, int batch_size, in_channels slf]) (\<lambda>c0.
         ebind (new_zeros [1, int batch_size, out_channels slf]) (\<lambda>q0.
         ebind (loop call x batch_size max_nodes (nat (processing_steps slf))
                  \<lparr>self = slf, h = (h0, c0), q_star = q0, lstm_calls = 0\<rparr>) (\<lambda>fr.
         ebind (view (q_star fr) [int batch_size, out_channels (self fr)]) (\<lambda>out.
         Inr (out, fr))))))
     | _ \<Rightarrow> Inl ValueError)"

text \<open>
  \<open>invocations call n fr fr'\<close>: the frame \<open>fr'\<close> is reached from \<open>fr\<close> by \<open>n\<close>
  successive invocations of the recurrent primitive. Each is applied to the weights of the
  object and to the \<open>q_star\<close> and the state of the frame before it; the frame after it
  holds the state it returned, its output at the head of every row of \<open>q_star\<close>, the same
  object, and a counter one higher.
\<close>

inductive invocations :: "'w lstm_call \<Rightarrow> nat \<Rightarrow> 'w frame \<Rightarrow> 'w frame \<Rightarrow> bool"
  for call :: "'w lstm_call" where
  none: "invocations call 0 fr fr"
| one_more:
    "call (lstm (self fr)) (q_star fr) (h fr) = Inr (q, hc) \<Longrightarrow>
     self fr1 = self fr \<Longrightarrow> h fr1 = hc \<Longrightarrow> lstm_calls fr1 = Suc (lstm_calls fr) \<Longrightarrow>
     (\<forall>s<shape q ! 1. \<forall>c<shape q ! 2. at3 (q_star fr1) 0 s c = at3 q 0 s c) \<Longrightarrow>
     invocations call n fr1 fr2 \<Longrightarrow>
     invocations call (Suc n) fr fr2"

section \<open>The collaborators\<close>

text \<open>
  Modelled from the spec: the batching primitive \<^verbatim>\<open>to_batch\<close> of
  \<^verbatim>\<open>torch_geometric.utils\<close>, which the layer imports and whose code lies outside
  \<^verbatim>\<open>set2set.py\<close>. From N feature vectors (a matrix of shape (N, C)) and N set-ids it
  groups the vectors by set-id, keeping their order, pads every set with zero vectors to
  the size of the largest set, and returns the dense tensor of shape
  (num_sets, max_set_size, C) together with the number of vectors of each set. Sequences
  of different lengths are a shape error. The sets are \<open>0, \<dots>, max id\<close>.
\<close>

definition members :: "nat list \<Rightarrow> nat \<Rightarrow> nat list" where
  "members batch s = filter (\<lambda>i. batch ! i = s) [0..<length batch]"

definition num_sets :: "nat list \<Rightarrow> nat" where
  "num_sets batch = (if batch = [] then 0 else Suc (foldr max batch 0))"

definition set_sizes :: "nat list \<Rightarrow> nat list" where
  "set_sizes batch = map (\<lambda>s. length (members batch s)) [0..<num_sets batch]"

definition max_set_size :: "nat list \<Rightarrow> nat" where
  "max_set_size batch = foldr max (set_sizes batch) 0"

text \<open>
  Modelled from the spec: \<^verbatim>\<open>to_batch(x, batch)\<close>, returning the padded tensor and the
  sizes of the sets.
\<close>

definition to_batch_spec :: "tensor \<Rightarrow> nat list \<Rightarrow> error + (tensor \<times> nat list)" where
  "to_batch_spec x batch =
     (case shape x of
        [n, c] \<Rightarrow>
          if n \<noteq> length batch then Inl RuntimeError
          else Inr (tabulate3 (num_sets batch) (max_set_size batch) c
                      (\<lambda>s j k. if j < length (members batch s)
                                then at2 x (members batch s ! j) k else 0),
                    set_sizes batch)
      | _ \<Rightarrow> Inl RuntimeError)"

text \<open>
  The rows of a matrix rearranged: row \<open>i\<close> of the result is row \<open>p ! i\<close> of \<open>x\<close>.
\<close>

definition permute_rows :: "nat list \<Rightarrow> tensor \<Rightarrow> tensor" where
  "permute_rows p x = tabulate2 (shape x ! 0) (shape x ! 1) (\<lambda>i k. at2 x (p ! i) k)"

text \<open>
  What the layer expects of the recurrent primitive, \<^verbatim>\<open>torch.nn.LSTM\<close> with input size
  \<open>I\<close>, hidden size \<open>H\<close> and \<open>L\<close> layers, on a batch of \<open>B\<close> sequences of length 1:
  from an input of shape (1, B, I) and a state of two tensors of shape (L, B, H) it
  returns an output of shape (1, B, H) and a state of the same shapes. It is a function of
  the weights, the input and the state: the layer builds it with the default dropout of
  zero.
\<close>

definition lstm_ok :: "'w lstm_call \<Rightarrow> 'w \<Rightarrow> nat \<Rightarrow> nat \<Rightarrow> nat \<Rightarrow> nat \<Rightarrow> bool" where
  "lstm_ok call w L B I H \<longleftrightarrow>
     (\<forall>inp hh cc.
        shape inp = [1, B, I] \<and> well_shaped inp \<and>
        shape hh = [L, B, H] \<and> well_shaped hh \<and> shape cc = [L, B, H] \<and> well_shaped cc \<longrightarrow>
        (\<exists>out hh' cc'.
           call w inp (hh, cc) = Inr (out, (hh', cc')) \<and>
           shape out = [1, B, H] \<and> well_shaped out \<and>
           shape hh' = [L, B, H] \<and> well_shaped hh' \<and> shape cc' = [L, B, H] \<and> well_shaped cc'))"

definition frame_ok :: "nat \<Rightarrow> nat \<Rightarrow> nat \<Rightarrow> 'w frame \<Rightarrow> bool" where
  "frame_ok L B C fr \<longleftrightarrow>
     shape (q_star fr) = [1, B, 2 * C] \<and> well_shaped (q_star fr) \<and>
     shape (fst (h fr)) = [L, B, C] \<and> well_shaped (fst (h fr)) \<and>
     shape (snd (h fr)) = [L, B, C] \<and> well_shaped (snd (h fr)) \<and>
     in_channels (self fr) = int C \<and> out_channels (self fr) = 2 * int C"

text \<open>
  Two stand-ins for the collaborators, to instantiate the theorems with: a recurrent
  primitive whose output is its weight plus the second half of each input row, and a
  constructor of weights that refuses every size that is not positive.
\<close>

definition demo_lstm :: "real lstm_call" where
  "demo_lstm w inp hc =
     (case (shape inp, shape (fst hc)) of
        ([t, b, i], [l, b', n]) \<Rightarrow> Inr (tabulate3 t b n (\<lambda>i s k. w + at3 inp i s (n + k)), hc)
      | _ \<Rightarrow> Inl RuntimeError)"

definition strict_LSTM :: "int \<Rightarrow> int \<Rightarrow> int \<Rightarrow> error + real" where
  "strict_LSTM input_size hidden_size layers =
     (if 0 < input_size \<and> 0 < hidden_size \<and> 0 < layers then Inr 1 else Inl ValueError)"

section \<open>The formulas of the specification\<close>

text \<open>
  The specification's formulas for one round, on the padded tensor \<open>x\<close> of shape
  (num_sets, max_set_size, C) and the output \<open>q\<close> of the recurrent primitive, of shape
  (1, num_sets, C): the score \<open>e[s, j] = sum_c x[s, j, c] * q[s, c]\<close>, the weight
  \<open>a[s, j] = exp(e[s, j]) / sum_j' exp(e[s, j'])\<close> and the readout
  \<open>r[s] = sum_j a[s, j] * x[s, j]\<close>.
\<close>

definition score_spec :: "tensor \<Rightarrow> tensor \<Rightarrow> nat \<Rightarrow> nat \<Rightarrow> real" where
  "score_spec x q s j = (\<Sum>c<shape x ! 2. at3 x s j c * at3 q 0 s c)"

definition attention_spec :: "tensor \<Rightarrow> tensor \<Rightarrow> nat \<Rightarrow> nat \<Rightarrow> real" where
  "attention_spec x q s j =
     exp (score_spec x q s j) / (\<Sum>j'<shape x ! 1. exp (score_spec x q s j'))"

definition readout_spec :: "tensor \<Rightarrow> tensor \<Rightarrow> nat \<Rightarrow> nat \<Rightarrow> real" where
  "readout_spec x q s c = (\<Sum>j<shape x ! 1. attention_spec x q s j * at3 x s j c)"

section \<open>Facts about the tensor operations\<close>

lemma ebind_Inr [simp]: "ebind (Inr v) f = f v"
  by (simp add: ebind_def)

lemma ebind_Inl [simp]: "ebind (Inl e) f = Inl e"
  by (simp add: ebind_def)

lemma ebind_eq_Inr: "ebind m f = Inr y \<longleftrightarrow> (\<exists>v. m = Inr v \<and> f v = Inr y)"
  by (cases m) simp_all

lemma shape_tabulate2 [simp]: "shape (tabulate2 a b f) = [a, b]"
  by (simp add: tabulate2_def)

lemma shape_tabulate3 [simp]: "shape (tabulate3 a b c f) = [a, b, c]"
  by (simp add: tabulate3_def)

lemma length_data_tabulate2 [simp]: "length (data (tabulate2 a b f)) = a * b"
  by (simp add: tabulate2_def)

lemma length_data_tabulate3 [simp]: "length (data (tabulate3 a b c f)) = a * b * c"
  by (simp add: tabulate3_def)

lemma well_shaped_tabulate2 [simp]: "well_shaped (tabulate2 a b f)"
  by (simp add: well_shaped_def)

lemma well_shaped_tabulate3 [simp]: "well_shaped (tabulate3 a b c f)"
  by (simp add: well_shaped_def)

lemma flat2_less: "i < a \<Longrightarrow> j < b \<Longrightarrow> i * b + j < a * (b::nat)"
proof -
  assume ij: "i < a" "j < b"
  have "i * b + j < i * b + b" using ij by simp
  also have "\<dots> = Suc i * b" by simp
  also have "\<dots> \<le> a * b" using ij by (intro mult_le_mono1) simp
  finally show ?thesis .
qed

lemma at2_tabulate2 [simp]: "i < a \<Longrightarrow> j < b \<Longrightarrow> at2 (tabulate2 a b f) i j = f i j"
  using flat2_less [of i a j b] by (simp add: at2_def tabulate2_def)

lemma flat3_less: "i < a \<Longrightarrow> j < b \<Longrightarrow> k < c \<Longrightarrow> (i * b + j) * c + k < a * b * (c::nat)"
  using flat2_less [of "i * b + j" "a * b" k c] flat2_less [of i a j b] by simp

lemma at3_tabulate3 [simp]:
  assumes "i < a" "j < b" "k < c"
  shows "at3 (tabulate3 a b c f) i j k = f i j k"
proof -
  let ?n = "(i * b + j) * c + k"
  have n: "?n < a * b * c" using assms by (rule flat3_less)
  have d1: "?n div c = i * b + j" using assms by simp
  have d2: "?n mod c = k" using assms by simp
  have d3: "?n div (b * c) = i"
  proof -
    have "?n div (b * c) = ?n div (c * b)"
      by (simp only: mult.commute)
    also have "\<dots> = (?n div c) div b"
      by (simp only: div_mult2_eq)
    finally have "?n div (b * c) = (?n div c) div b" .
    then show ?thesis using d1 assms by simp
  qed
  have d4: "?n div c mod b = j" using d1 assms by simp
  show ?thesis
    using n assms by (simp add: at3_def tabulate3_def d2 d3 d4 del: upt_Suc)
qed

lemma tabulate2_cong:
  assumes "\<And>i j. i < a \<Longrightarrow> j < b \<Longrightarrow> f i j = g i j"
  shows "tabulate2 a b f = tabulate2 a b g"
proof -
  have "f (n div b) (n mod b) = g (n div b) (n mod b)" if "n < a * b" for n
  proof -
    have b: "0 < b" using that by (cases b) simp_all
    have "n div b < a" using that b by (simp add: less_mult_imp_div_less)
    then show ?thesis using b assms by simp
  qed
  then show ?thesis by (simp add: tabulate2_def)
qed

lemma tabulate3_cong:
  assumes "\<And>i j k. i < a \<Longrightarrow> j < b \<Longrightarrow> k < c \<Longrightarrow> f i j k = g i j k"
  shows "tabulate3 a b c f = tabulate3 a b c g"
proof -
  have "f (n div (b * c)) (n div c mod b) (n mod c) = g (n div (b * c)) (n div c mod b) (n mod c)"
    if "n < a * b * c" for n
  proof -
    have c: "0 < c" using that by (cases c) simp_all
    have b: "0 < b" using that by (cases b) simp_all
    have "n < a * (b * c)" using that by (simp add: mult.assoc)
    then have "n div (b * c) < a" using b c by (simp add: less_mult_imp_div_less)
    then show ?thesis using b c assms by simp
  qed
  then show ?thesis by (simp add: tabulate3_def)
qed


lemma list_ex_map_int [simp]: "\<not> list_ex (\<lambda>d. d < 0) (map int sh)"
  by (induction sh) simp_all

lemma list_ex_map_int' [simp]: "\<not> list_ex (\<lambda>d. d < - 1) (map int sh)"
  by (induction sh) simp_all

lemma filter_map_int [simp]: "filter (\<lambda>d. d = - 1) (map int sh) = []"
  by (induction sh) simp_all

lemma nat_comp_int [simp]: "nat \<circ> int = id"
  by (rule ext) simp

lemma sum_list_upt_cong:
  "(\<And>k. k < n \<Longrightarrow> f k = g k) \<Longrightarrow> sum_list (map f [0..<n]) = sum_list (map g [0..<n])"
  by (rule arg_cong [where f = sum_list], rule map_cong) simp_all

lemma new_zeros_map_int:
  "new_zeros (map int sh) = Inr \<lparr>shape = sh, data = replicate (prod_list sh) 0\<rparr>"
  by (simp add: new_zeros_def)

lemma view_map_int:
  "prod_list sh = length (data t) \<Longrightarrow> view t (map int sh) = Inr \<lparr>shape = sh, data = data t\<rparr>"
  by (simp add: view_def)

lemma mul3_bcast_mid:
  assumes "shape s = [a, b, c]" "shape t = [a, 1, c]"
  shows "mul3 s t = Inr (tabulate3 a b c (\<lambda>i j k. at3 s i j k * at3 t i 0 k))"
proof -
  have "mul3 s t = Inr (tabulate3 a b c (\<lambda>i j k.
      at3 s (if a = 1 then 0 else i) (if b = 1 then 0 else j) (if c = 1 then 0 else k) *
      at3 t (if a = 1 then 0 else i) 0 (if c = 1 then 0 else k)))"
    using assms by (simp add: mul3_def bdim_def)
  also have "\<dots> = Inr (tabulate3 a b c (\<lambda>i j k. at3 s i j k * at3 t i 0 k))"
    by (simp, rule tabulate3_cong) auto
  finally show ?thesis .
qed

lemma mul3_bcast_last:
  assumes "shape s = [a, b, 1]" "shape t = [a, b, c]"
  shows "mul3 s t = Inr (tabulate3 a b c (\<lambda>i j k. at3 s i j 0 * at3 t i j k))"
proof -
  have "mul3 s t = Inr (tabulate3 a b c (\<lambda>i j k.
      at3 s (if a = 1 then 0 else i) (if b = 1 then 0 else j) 0 *
      at3 t (if a = 1 then 0 else i) (if b = 1 then 0 else j) (if c = 1 then 0 else k)))"
    using assms by (simp add: mul3_def bdim_def)
  also have "\<dots> = Inr (tabulate3 a b c (\<lambda>i j k. at3 s i j 0 * at3 t i j k))"
    by (simp, rule tabulate3_cong) auto
  finally show ?thesis .
qed

lemma sum_last_tabulate3:
  "sum_last (tabulate3 a b c f) = Inr (tabulate2 a b (\<lambda>i j. sum_list (map (f i j) [0..<c])))"
proof -
  have "tabulate2 a b (\<lambda>i j. sum_list (map (at3 (tabulate3 a b c f) i j) [0..<c])) =
        tabulate2 a b (\<lambda>i j. sum_list (map (f i j) [0..<c]))"
    by (rule tabulate2_cong, rule sum_list_upt_cong) simp
  then show ?thesis by (simp add: sum_last_def)
qed

lemma softmax_last_tabulate2:
  "softmax_last (tabulate2 a b f) =
     Inr (tabulate2 a b (\<lambda>i j. exp (f i j) / sum_list (map (\<lambda>j'. exp (f i j')) [0..<b])))"
proof -
  have "tabulate2 a b (\<lambda>i j. exp (at2 (tabulate2 a b f) i j) /
            sum_list (map (\<lambda>j'. exp (at2 (tabulate2 a b f) i j')) [0..<b])) =
        tabulate2 a b (\<lambda>i j. exp (f i j) / sum_list (map (\<lambda>j'. exp (f i j')) [0..<b]))"
  proof (rule tabulate2_cong)
    fix i j assume ij: "i < a" "j < b"
    have "sum_list (map (\<lambda>j'. exp (at2 (tabulate2 a b f) i j')) [0..<b]) =
          sum_list (map (\<lambda>j'. exp (f i j')) [0..<b])"
      using ij by (intro sum_list_upt_cong) simp
    then show "exp (at2 (tabulate2 a b f) i j) /
            sum_list (map (\<lambda>j'. exp (at2 (tabulate2 a b f) i j')) [0..<b]) =
          exp (f i j) / sum_list (map (\<lambda>j'. exp (f i j')) [0..<b])"
      using ij by simp
  qed
  then show ?thesis by (simp add: softmax_last_def)
qed

lemma sum_dim1_keepdim_tabulate3:
  "sum_dim1_keepdim (tabulate3 a b c f) =
     Inr (tabulate3 a 1 c (\<lambda>i j k. sum_list (map (\<lambda>j'. f i j' k) [0..<b])))"
proof -
  have "tabulate3 a 1 c (\<lambda>i j k. sum_list (map (\<lambda>j'. at3 (tabulate3 a b c f) i j' k) [0..<b])) =
        tabulate3 a 1 c (\<lambda>i j k. sum_list (map (\<lambda>j'. f i j' k) [0..<b]))"
    by (rule tabulate3_cong, rule sum_list_upt_cong) simp
  then show ?thesis by (simp add: sum_dim1_keepdim_def)
qed

lemma cat_last_same:
  assumes "shape s = [a, b, c]" "shape t = [a, b, c']"
  shows "cat_last s t =
     Inr (tabulate3 a b (c + c') (\<lambda>i j k. if k < c then at3 s i j k else at3 t i j (k - c)))"
  using assms by (simp add: cat_last_def)


lemma scores_explicit:
  assumes "shape x = [B, M, C]" "shape q = [B, 1, C]"
  shows "scores x q =
     Inr (tabulate2 B M (\<lambda>s j. sum_list (map (\<lambda>c. at3 x s j c * at3 q s 0 c) [0..<C])))"
  using assms by (simp add: scores_def mul3_bcast_mid sum_last_tabulate3)

lemma weights_explicit:
  "weights (tabulate2 B M f) B M =
     Inr \<lparr>shape = [B, M, 1],
          data = data (tabulate2 B M (\<lambda>s j.
            exp (f s j) / sum_list (map (\<lambda>j'. exp (f s j')) [0..<M])))\<rparr>"
proof -
  have "[int B, int M, 1] = map int [B, M, 1]" by simp
  then show ?thesis
    by (simp only: weights_def softmax_last_tabulate2 ebind_Inr view_map_int
        length_data_tabulate2 prod_list.Cons prod_list.Nil mult_1_right)
qed

lemma at3_last1:
  "at3 \<lparr>shape = [a, b, 1], data = data t\<rparr> i j 0 = at2 \<lparr>shape = [a, b], data = data t\<rparr> i j"
  by (simp add: at3_def at2_def)

lemma at2_reshape: "shape t = [a, b] \<Longrightarrow> at2 \<lparr>shape = [a, b], data = data t\<rparr> i j = at2 t i j"
  by (simp add: at2_def)

lemma readout_explicit:
  assumes "shape a = [B, M, 1]" "shape x = [B, M, C]"
  shows "readout a x =
     Inr (tabulate3 B 1 C (\<lambda>s j c. sum_list (map (\<lambda>j'. at3 a s j' 0 * at3 x s j' c) [0..<M])))"
  using assms by (simp add: readout_def mul3_bcast_last sum_dim1_keepdim_tabulate3)

lemma body_run:
  assumes call: "call (lstm (self fr)) (q_star fr) (h fr) = Inr (q, hc)"
    and q: "shape q = [1, B, C]" "well_shaped q"
    and x: "shape x = [B, M, C]"
    and cfg: "in_channels (self fr) = int C" "out_channels (self fr) = 2 * int C"
  shows "\<exists>qv e a r qs.
      qv = \<lparr>shape = [B, 1, C], data = data q\<rparr> \<and>
      view q [int B, 1, in_channels (self fr)] = Inr qv \<and>
      scores x qv = Inr e \<and> weights e B M = Inr a \<and> readout a x = Inr r \<and>
      cat_last qv r = Inr qs \<and>
      e = tabulate2 B M (\<lambda>s j. sum_list (map (\<lambda>c. at3 x s j c * at3 qv s 0 c) [0..<C])) \<and>
      a = \<lparr>shape = [B, M, 1], data = data (tabulate2 B M (\<lambda>s j.
            exp (at2 e s j) / sum_list (map (\<lambda>j'. exp (at2 e s j')) [0..<M])))\<rparr> \<and>
      r = tabulate3 B 1 C (\<lambda>s j c. sum_list (map (\<lambda>j'. at3 a s j' 0 * at3 x s j' c) [0..<M])) \<and>
      qs = tabulate3 B 1 (C + C) (\<lambda>i j k. if k < C then at3 qv i j k else at3 r i j (k - C)) \<and>
      body call x B M fr =
        Inr (fr\<lparr>h := hc, q_star := \<lparr>shape = [1, B, 2 * C], data = data qs\<rparr>,
                lstm_calls := lstm_calls fr + 1\<rparr>)"
proof -
  define qv where "qv = \<lparr>shape = [B, 1, C], data = data q\<rparr>"
  define e where "e = tabulate2 B M (\<lambda>s j. sum_list (map (\<lambda>c. at3 x s j c * at3 qv s 0 c) [0..<C]))"
  define a where "a = \<lparr>shape = [B, M, 1], data = data (tabulate2 B M (\<lambda>s j.
            exp (at2 e s j) / sum_list (map (\<lambda>j'. exp (at2 e s j')) [0..<M])))\<rparr>"
  define r where "r = tabulate3 B 1 C (\<lambda>s j c. sum_list (map (\<lambda>j'. at3 a s j' 0 * at3 x s j' c) [0..<M]))"
  define qs where "qs = tabulate3 B 1 (C + C) (\<lambda>i j k. if k < C then at3 qv i j k else at3 r i j (k - C))"
  have lq: "length (data q) = B * C"
    using q by (simp add: well_shaped_def)
  have "[int B, 1, int C] = map int [B, 1, C]" by simp
  then have v1: "view q [int B, 1, in_channels (self fr)] = Inr qv"
    using lq by (simp only: cfg qv_def view_map_int prod_list.Cons prod_list.Nil mult_1_right mult_1)
  have sqv: "shape qv = [B, 1, C]" by (simp add: qv_def)
  have s1: "scores x qv = Inr e"
    unfolding e_def by (rule scores_explicit [OF x sqv])
  have "tabulate2 B M (\<lambda>s j. exp (at2 e s j) / sum_list (map (\<lambda>j'. exp (at2 e s j')) [0..<M])) =
        tabulate2 B M (\<lambda>s j.
          exp (sum_list (map (\<lambda>c. at3 x s j c * at3 qv s 0 c) [0..<C])) /
          sum_list (map (\<lambda>j'. exp (sum_list (map (\<lambda>c. at3 x s j' c * at3 qv s 0 c) [0..<C]))) [0..<M]))"
  proof (rule tabulate2_cong)
    fix s j assume sj: "s < B" "j < M"
    have "sum_list (map (\<lambda>j'. exp (at2 e s j')) [0..<M]) =
          sum_list (map (\<lambda>j'. exp (sum_list (map (\<lambda>c. at3 x s j' c * at3 qv s 0 c) [0..<C]))) [0..<M])"
      using sj by (intro sum_list_upt_cong) (simp add: e_def)
    then show "exp (at2 e s j) / sum_list (map (\<lambda>j'. exp (at2 e s j')) [0..<M]) =
          exp (sum_list (map (\<lambda>c. at3 x s j c * at3 qv s 0 c) [0..<C])) /
          sum_list (map (\<lambda>j'. exp (sum_list (map (\<lambda>c. at3 x s j' c * at3 qv s 0 c) [0..<C]))) [0..<M])"
      using sj by (simp add: e_def)
  qed
  then have w1: "weights e B M = Inr a"
    unfolding a_def e_def by (simp only: weights_explicit)
  have sa: "shape a = [B, M, 1]" by (simp add: a_def)
  have r1: "readout a x = Inr r"
    unfolding r_def by (rule readout_explicit [OF sa x])
  have sr: "shape r = [B, 1, C]" by (simp add: r_def)
  have c1: "cat_last qv r = Inr qs"
    unfolding qs_def by (rule cat_last_same [OF sqv sr])
  have lqs: "length (data qs) = B * (C + C)" by (simp add: qs_def)
  have "[1, int B, 2 * int C] = map int [1, B, 2 * C]" by simp
  then have v2: "view qs [1, int B, out_channels (self fr)] =
      Inr \<lparr>shape = [1, B, 2 * C], data = data qs\<rparr>"
    using lqs by (simp only: cfg view_map_int prod_list.Cons prod_list.Nil mult_1_right mult_1 mult_2)
  have "body call x B M fr =
        Inr (fr\<lparr>h := hc, q_star := \<lparr>shape = [1, B, 2 * C], data = data qs\<rparr>,
                lstm_calls := lstm_calls fr + 1\<rparr>)"
    by (simp add: body_def call v1 s1 w1 r1 c1 v2)
  then show ?thesis
    using v1 s1 w1 r1 c1 qv_def e_def a_def r_def qs_def by blast
qed


lemma body_self:
  assumes "body call x B M fr = Inr fr'"
  shows "self fr' = self fr \<and> lstm_calls fr' = Suc (lstm_calls fr)"
  using assms by (auto simp: body_def ebind_eq_Inr)

lemma loop_self:
  "loop call x B M n fr = Inr fr' \<Longrightarrow> self fr' = self fr \<and> lstm_calls fr' = lstm_calls fr + n"
proof (induction n arbitrary: fr)
  case 0
  then show ?case by simp
next
  case (Suc n)
  from Suc.prems obtain fr1 where b: "body call x B M fr = Inr fr1"
    and l: "loop call x B M n fr1 = Inr fr'"
    by (auto simp: ebind_eq_Inr)
  from body_self [OF b] Suc.IH [OF l] show ?case by simp
qed

lemma body_ok:
  assumes fr: "frame_ok L B C fr"
    and ok: "lstm_ok call (lstm (self fr)) L B (2 * C) C"
    and x: "shape x = [B, M, C]"
  shows "\<exists>fr'. body call x B M fr = Inr fr' \<and> frame_ok L B C fr'"
proof -
  from fr have pre: "shape (q_star fr) = [1, B, 2 * C] \<and> well_shaped (q_star fr) \<and>
      shape (fst (h fr)) = [L, B, C] \<and> well_shaped (fst (h fr)) \<and>
      shape (snd (h fr)) = [L, B, C] \<and> well_shaped (snd (h fr))"
    and cfg: "in_channels (self fr) = int C" "out_channels (self fr) = 2 * int C"
    by (simp_all add: frame_ok_def)
  from ok pre obtain q hh cc where
    call: "call (lstm (self fr)) (q_star fr) (fst (h fr), snd (h fr)) = Inr (q, (hh, cc))"
    and q: "shape q = [1, B, C]" "well_shaped q"
    and hc: "shape hh = [L, B, C]" "well_shaped hh" "shape cc = [L, B, C]" "well_shaped cc"
    unfolding lstm_ok_def by blast
  from call have call': "call (lstm (self fr)) (q_star fr) (h fr) = Inr (q, (hh, cc))"
    by simp
  from body_run [of call fr, OF call' q x cfg] obtain qv r qs where
    qs0: "qs = tabulate3 B 1 (C + C) (\<lambda>i j k. if k < C then at3 qv i j k else at3 r i j (k - C))"
    and b: "body call x B M fr =
        Inr (fr\<lparr>h := (hh, cc), q_star := \<lparr>shape = [1, B, 2 * C], data = data qs\<rparr>,
                lstm_calls := lstm_calls fr + 1\<rparr>)"
    by blast
  have qs: "length (data qs) = B * (C + C)"
    by (simp add: qs0)
  have "frame_ok L B C (fr\<lparr>h := (hh, cc), q_star := \<lparr>shape = [1, B, 2 * C], data = data qs\<rparr>,
                lstm_calls := lstm_calls fr + 1\<rparr>)"
    using hc cfg qs by (simp add: frame_ok_def well_shaped_def)
  with b show ?thesis by blast
qed

lemma loop_ok:
  assumes x: "shape x = [B, M, C]"
  shows "frame_ok L B C fr \<Longrightarrow> lstm_ok call (lstm (self fr)) L B (2 * C) C \<Longrightarrow>
     \<exists>fr'. loop call x B M n fr = Inr fr' \<and> frame_ok L B C fr'"
proof (induction n arbitrary: fr)
  case 0
  then show ?case by simp
next
  case (Suc n)
  from body_ok [OF Suc.prems x] obtain fr1 where
    b: "body call x B M fr = Inr fr1" and f1: "frame_ok L B C fr1"
    by blast
  from body_self [OF b] Suc.prems(2) have "lstm_ok call (lstm (self fr1)) L B (2 * C) C"
    by simp
  from Suc.IH [OF f1 this] b show ?case by simp
qed

lemma forward_run:
  assumes tb: "to_batch x batch = Inr (xp, cnt)"
    and xp: "shape xp = [B, M, C]"
    and cfg: "in_channels slf = int C" "out_channels slf = 2 * int C" "num_layers slf = int L"
    and ok: "lstm_ok call (lstm slf) L B (2 * C) C"
  shows "\<exists>out fr. forward to_batch call slf x batch = Inr (out, fr) \<and>
      shape out = [B, 2 * C] \<and> well_shaped out \<and> self fr = slf \<and>
      lstm_calls fr = nat (processing_steps slf)"
proof -
  define z where "z = \<lparr>shape = [L, B, C], data = replicate (L * B * C) 0\<rparr>"
  define q0 where "q0 = \<lparr>shape = [1, B, 2 * C], data = replicate (B * (2 * C)) 0\<rparr>"
  define fr0 where "fr0 = \<lparr>self = slf, h = (z, z), q_star = q0, lstm_calls = 0\<rparr>"
  have "[int L, int B, int C] = map int [L, B, C]" by simp
  then have z: "new_zeros [num_layers slf, int B, in_channels slf] = Inr z"
    by (simp only: cfg new_zeros_map_int z_def prod_list.Cons prod_list.Nil mult_1_right mult.assoc)
  have "[1, int B, 2 * int C] = map int [1, B, 2 * C]" by simp
  then have q0: "new_zeros [1, int B, out_channels slf] = Inr q0"
    by (simp only: cfg new_zeros_map_int q0_def prod_list.Cons prod_list.Nil mult_1_right mult_1)
  have f0: "frame_ok L B C fr0"
    by (simp add: frame_ok_def fr0_def z_def q0_def well_shaped_def cfg)
  have ok0: "lstm_ok call (lstm (self fr0)) L B (2 * C) C"
    using ok by (simp add: fr0_def)
  from loop_ok [OF xp f0 ok0] obtain fr where
    l: "loop call xp B M (nat (processing_steps slf)) fr0 = Inr fr" and f: "frame_ok L B C fr"
    by blast
  from loop_self [OF l] have s: "self fr = slf" "lstm_calls fr = nat (processing_steps slf)"
    by (simp_all add: fr0_def)
  have len: "prod_list [B, 2 * C] = length (data (q_star fr))"
    using f by (simp add: frame_ok_def well_shaped_def)
  have "[int B, 2 * int C] = map int [B, 2 * C]" by simp
  then have v: "view (q_star fr) [int B, out_channels (self fr)] =
      Inr \<lparr>shape = [B, 2 * C], data = data (q_star fr)\<rparr>"
    using len by (simp only: s cfg view_map_int)
  have "forward to_batch call slf x batch =
      Inr (\<lparr>shape = [B, 2 * C], data = data (q_star fr)\<rparr>, fr)"
    using l by (simp add: forward_def tb xp z q0 fr0_def v)
  then show ?thesis
    using s len by (simp add: well_shaped_def)
qed

lemma sum_list_upt: "sum_list (map f [0..<n]) = (\<Sum>k<n. f k)"
  by (simp add: interv_sum_list_conv_sum_set_nat atLeast0LessThan)

lemma at3_view_1BC: "at3 \<lparr>shape = [1, B, K], data = d\<rparr> 0 s k = at3 \<lparr>shape = [B, 1, K], data = d\<rparr> s 0 k"
  by (simp add: at3_def)

lemma at3_eq_data: "shape t = sh \<Longrightarrow> at3 \<lparr>shape = sh, data = data t\<rparr> i j k = at3 t i j k"
  by (simp add: at3_def)

lemma weights_run:
  assumes e: "e = tabulate2 B M f"
  shows "\<exists>a. weights e B M = Inr a \<and> shape a = [B, M, 1] \<and>
     (\<forall>s<B. \<forall>j<M. at3 a s j 0 = exp (at2 e s j) / (\<Sum>j'<M. exp (at2 e s j')))"
proof -
  let ?a = "\<lparr>shape = [B, M, 1],
          data = data (tabulate2 B M (\<lambda>s j.
            exp (f s j) / sum_list (map (\<lambda>j'. exp (f s j')) [0..<M])))\<rparr>"
  have w: "weights e B M = Inr ?a"
    unfolding e by (rule weights_explicit)
  have "at3 ?a s j 0 = exp (at2 e s j) / (\<Sum>j'<M. exp (at2 e s j'))" if sj: "s < B" "j < M" for s j
  proof -
    have "at3 ?a s j 0 = at2 (tabulate2 B M (\<lambda>s j.
            exp (f s j) / sum_list (map (\<lambda>j'. exp (f s j')) [0..<M]))) s j"
      by (simp add: at3_def at2_def)
    also have "\<dots> = exp (f s j) / (\<Sum>j'<M. exp (f s j'))"
      using sj by (simp add: sum_list_upt)
    also have "\<dots> = exp (at2 e s j) / (\<Sum>j'<M. exp (at2 e s j'))"
      using sj by (simp add: e)
    finally show ?thesis .
  qed
  with w show ?thesis by simp
qed

section \<open>What every call does\<close>

lemma forward_self:
  assumes "forward tb call slf x batch = Inr (out, fr)"
  shows "self fr = slf \<and> lstm_calls fr = nat (processing_steps slf)"
proof -
  from assms obtain xp cnt where tb: "tb x batch = Inr (xp, cnt)"
    by (auto simp: forward_def ebind_eq_Inr)
  from assms tb obtain B M C where xp: "shape xp = [B, M, C]"
    by (auto simp: forward_def split: list.splits)
  from assms tb xp obtain fr0 where
    l: "loop call xp B M (nat (processing_steps slf)) fr0 = Inr fr"
    and f0: "self fr0 = slf" "lstm_calls fr0 = 0"
    by (auto simp: forward_def ebind_eq_Inr)
  from loop_self [OF l] f0 show ?thesis by simp
qed

lemma forward_entry:
  assumes "forward tb call slf x batch = Inr (out, fr)"
  shows "\<exists>xp cnt B M C z q0.
      tb x batch = Inr (xp, cnt) \<and> shape xp = [B, M, C] \<and>
      new_zeros [num_layers slf, int B, in_channels slf] = Inr z \<and>
      new_zeros [1, int B, out_channels slf] = Inr q0 \<and>
      loop call xp B M (nat (processing_steps slf))
        \<lparr>self = slf, h = (z, z), q_star = q0, lstm_calls = 0\<rparr> = Inr fr"
proof -
  from assms obtain xp cnt where tb: "tb x batch = Inr (xp, cnt)"
    by (auto simp: forward_def ebind_eq_Inr)
  from assms tb obtain B M C where xp: "shape xp = [B, M, C]"
    by (auto simp: forward_def split: list.splits)
  from assms tb xp show ?thesis
    by (auto simp: forward_def ebind_eq_Inr)
qed

lemma new_zeros_data: "new_zeros sz = Inr z \<Longrightarrow> set (data z) \<subseteq> {0}"
  by (auto simp: new_zeros_def split: if_splits)

lemma forward_no_rounds:
  assumes tb: "tb x batch = Inr (xp, cnt)"
    and xp: "shape xp = [B, M, C]"
    and cfg: "0 \<le> in_channels slf" "0 \<le> num_layers slf" "out_channels slf = 2 * in_channels slf"
    and T: "processing_steps slf \<le> 0"
  shows "forward tb call slf x batch =
      Inr (\<lparr>shape = [B, nat (2 * in_channels slf)],
            data = replicate (B * nat (2 * in_channels slf)) 0\<rparr>,
           \<lparr>self = slf,
            h = (\<lparr>shape = [nat (num_layers slf), B, nat (in_channels slf)],
                   data = replicate (nat (num_layers slf) * (B * nat (in_channels slf))) 0\<rparr>,
                 \<lparr>shape = [nat (num_layers slf), B, nat (in_channels slf)],
                   data = replicate (nat (num_layers slf) * (B * nat (in_channels slf))) 0\<rparr>),
            q_star = \<lparr>shape = [1, B, nat (2 * in_channels slf)],
                       data = replicate (B * nat (2 * in_channels slf)) 0\<rparr>,
            lstm_calls = 0\<rparr>)"
proof -
  have z: "new_zeros [num_layers slf, int B, in_channels slf] =
      Inr \<lparr>shape = [nat (num_layers slf), B, nat (in_channels slf)],
           data = replicate (nat (num_layers slf) * (B * nat (in_channels slf))) 0\<rparr>"
    using cfg by (simp add: new_zeros_def)
  have q0: "new_zeros [1, int B, out_channels slf] =
      Inr \<lparr>shape = [1, B, nat (2 * in_channels slf)],
           data = replicate (B * nat (2 * in_channels slf)) 0\<rparr>"
    using cfg by (simp add: new_zeros_def)
  have n: "nat (processing_steps slf) = 0"
    using T by simp
  have v: "view \<lparr>shape = [1, B, nat (2 * in_channels slf)],
                 data = replicate (B * nat (2 * in_channels slf)) 0\<rparr>
             [int B, out_channels slf] =
      Inr \<lparr>shape = [B, nat (2 * in_channels slf)],
           data = replicate (B * nat (2 * in_channels slf)) 0\<rparr>"
    using cfg by (simp add: view_def)
  show ?thesis
    using v by (simp add: forward_def tb xp z q0 n)
qed

lemma body_invocation:
  assumes fr: "frame_ok L B C fr"
    and ok: "lstm_ok call (lstm (self fr)) L B (2 * C) C"
    and x: "shape x = [B, M, C]"
  shows "\<exists>q hc fr1. call (lstm (self fr)) (q_star fr) (h fr) = Inr (q, hc) \<and>
      shape q = [1, B, C] \<and> body call x B M fr = Inr fr1 \<and>
      self fr1 = self fr \<and> h fr1 = hc \<and> lstm_calls fr1 = Suc (lstm_calls fr) \<and>
      (\<forall>s<B. \<forall>c<C. at3 (q_star fr1) 0 s c = at3 q 0 s c) \<and>
      frame_ok L B C fr1"
proof -
  from fr have pre: "shape (q_star fr) = [1, B, 2 * C] \<and> well_shaped (q_star fr) \<and>
      shape (fst (h fr)) = [L, B, C] \<and> well_shaped (fst (h fr)) \<and>
      shape (snd (h fr)) = [L, B, C] \<and> well_shaped (snd (h fr))"
    and cfg: "in_channels (self fr) = int C" "out_channels (self fr) = 2 * int C"
    by (simp_all add: frame_ok_def)
  from ok pre obtain q hh cc where
    call: "call (lstm (self fr)) (q_star fr) (fst (h fr), snd (h fr)) = Inr (q, (hh, cc))"
    and q: "shape q = [1, B, C]" "well_shaped q"
    and hc: "shape hh = [L, B, C]" "well_shaped hh" "shape cc = [L, B, C]" "well_shaped cc"
    unfolding lstm_ok_def by blast
  from call have call': "call (lstm (self fr)) (q_star fr) (h fr) = Inr (q, (hh, cc))"
    by simp
  from body_run [of call fr, OF call' q x cfg] obtain qv r qs where
    qv: "qv = \<lparr>shape = [B, 1, C], data = data q\<rparr>"
    and qs: "qs = tabulate3 B 1 (C + C) (\<lambda>i j k. if k < C then at3 qv i j k else at3 r i j (k - C))"
    and b: "body call x B M fr =
        Inr (fr\<lparr>h := (hh, cc), q_star := \<lparr>shape = [1, B, 2 * C], data = data qs\<rparr>,
                lstm_calls := lstm_calls fr + 1\<rparr>)"
    by blast
  let ?fr1 = "fr\<lparr>h := (hh, cc), q_star := \<lparr>shape = [1, B, 2 * C], data = data qs\<rparr>,
                lstm_calls := lstm_calls fr + 1\<rparr>"
  have lqs: "length (data qs) = B * (C + C)"
    by (simp add: qs)
  have f1: "frame_ok L B C ?fr1"
    using hc cfg lqs by (simp add: frame_ok_def well_shaped_def)
  have link: "at3 (q_star ?fr1) 0 s c = at3 q 0 s c" if sc: "s < B" "c < C" for s c
  proof -
    have "at3 (q_star ?fr1) 0 s c = at3 qs s 0 c"
      by (simp add: at3_def qs mult_2)
    also have "\<dots> = at3 qv s 0 c"
      using sc by (simp add: qs)
    also have "\<dots> = at3 q 0 s c"
      using q by (simp add: qv at3_def)
    finally show ?thesis .
  qed
  show ?thesis
    using call' q(1) b f1 link by (intro exI [of _ q] exI [of _ "(hh, cc)"] exI [of _ ?fr1]) simp
qed

lemma loop_invocations:
  assumes x: "shape x = [B, M, C]"
  shows "frame_ok L B C fr \<Longrightarrow> lstm_ok call (lstm (self fr)) L B (2 * C) C \<Longrightarrow>
     \<exists>fr'. loop call x B M n fr = Inr fr' \<and> invocations call n fr fr'"
proof (induction n arbitrary: fr)
  case 0
  then show ?case by (simp add: invocations.none)
next
  case (Suc n)
  from body_invocation [OF Suc.prems x] obtain q hc fr1 where
    c: "call (lstm (self fr)) (q_star fr) (h fr) = Inr (q, hc)"
    and q: "shape q = [1, B, C]"
    and b: "body call x B M fr = Inr fr1"
    and s: "self fr1 = self fr" "h fr1 = hc" "lstm_calls fr1 = Suc (lstm_calls fr)"
    and link: "\<forall>s<B. \<forall>c<C. at3 (q_star fr1) 0 s c = at3 q 0 s c"
    and f1: "frame_ok L B C fr1"
    by blast
  from s Suc.prems(2) have "lstm_ok call (lstm (self fr1)) L B (2 * C) C"
    by simp
  from Suc.IH [OF f1 this] obtain fr' where
    l: "loop call x B M n fr1 = Inr fr'" and i: "invocations call n fr1 fr'"
    by blast
  have link': "\<forall>s<shape q ! 1. \<forall>c<shape q ! 2. at3 (q_star fr1) 0 s c = at3 q 0 s c"
    using link by (simp add: q)
  have "invocations call (Suc n) fr fr'"
    using c s link' i by (rule invocations.one_more)
  with b l show ?case by simp
qed

section \<open>The stand-ins meet the expectations\<close>

lemma lstm_ok_demo: "lstm_ok demo_lstm w L B I H"
  by (simp add: lstm_ok_def demo_lstm_def)

lemma to_batch_spec_run:
  assumes "shape x = [N, C]" "length batch = N"
  shows "to_batch_spec x batch =
     Inr (tabulate3 (num_sets batch) (max_set_size batch) C
            (\<lambda>s j k. if j < length (members batch s) then at2 x (members batch s ! j) k else 0),
          set_sizes batch)"
  using assms by (simp add: to_batch_spec_def)

lemma to_batch_spec_padding:
  assumes "to_batch_spec x batch = Inr (xp, cnt)"
    and "s < num_sets batch" "length (members batch s) \<le> j" "j < max_set_size batch"
    and "c < shape x ! 1"
  shows "at3 xp s j c = 0"
  using assms by (auto simp: to_batch_spec_def split: list.splits if_splits)

lemma demo_sizes: "num_sets [0, 0, 1] = 2" "max_set_size [0, 0, 1] = 2"
  by (simp_all add: num_sets_def max_set_size_def set_sizes_def members_def)

lemma demo_to_batch:
  "to_batch_spec \<lparr>shape = [3, 1], data = [1, 2, 3]\<rparr> [0, 0, 1] =
     Inr (tabulate3 2 2 1
            (\<lambda>s j k. if j < length (members [0, 0, 1] s)
               then at2 \<lparr>shape = [3, 1], data = [1, 2, 3]\<rparr> (members [0, 0, 1] s ! j) k else 0),
          set_sizes [0, 0, 1])"
  using to_batch_spec_run [of "\<lparr>shape = [3, 1], data = [1, 2, 3]\<rparr>" 3 1 "[0, 0, 1]"]
  unfolding demo_sizes by simp

section \<open>The shape of the output\<close>

text \<open>
  Claim C1. Let the batching primitive group the input into a padded tensor of shape
  (num_sets, max_set_size, C), let C be the layer's \<open>in_channels\<close>, and let the recurrent
  primitive keep to its shapes. Then \<^verbatim>\<open>forward\<close> returns, and its result has the shape
  (num_sets, 2 * C), whatever \<open>max_set_size\<close> and \<open>processing_steps\<close> are.
\<close>

theorem forward_output_shape:
  assumes "tb x batch = Inr (xp, cnt)"
    and "shape xp = [B, M, C]"
    and "in_channels slf = int C" "out_channels slf = 2 * int C" "num_layers slf = int L"
    and "lstm_ok call (lstm slf) L B (2 * C) C"
  shows "\<exists>out fr. forward tb call slf x batch = Inr (out, fr) \<and>
      shape out = [B, 2 * C] \<and> well_shaped out"
  using forward_run [of tb x batch xp cnt B M C slf L call] assms by blast

theorem forward_output_shape_witness:
  "\<exists>out fr. forward to_batch_spec demo_lstm
       \<lparr>in_channels = 1, out_channels = 2, processing_steps = 3, num_layers = 1, lstm = 1\<rparr>
       \<lparr>shape = [3, 1], data = [1, 2, 3]\<rparr> [0, 0, 1] = Inr (out, fr) \<and>
     shape out = [2, 2] \<and> well_shaped out"
  using forward_output_shape [of to_batch_spec "\<lparr>shape = [3, 1], data = [1, 2, 3]\<rparr>" "[0, 0, 1]"
      _ _ 2 2 1
      "\<lparr>in_channels = 1, out_channels = 2, processing_steps = 3, num_layers = 1, lstm = 1\<rparr>"
      1 demo_lstm, OF demo_to_batch]
  by (simp add: lstm_ok_demo)

section \<open>The number of rounds\<close>

text \<open>
  Claim C2. With \<open>processing_steps = T\<close> positive, and under the conditions of C1,
  \<^verbatim>\<open>forward\<close> returns, and the frame at its return is reached from the all-zero frame
  of the loop's entry by exactly T successive invocations of the recurrent primitive, each
  on the \<open>q_star\<close> and the state the round before has left; the ghost counter, which rises
  with each of them, ends at T.
\<close>

theorem forward_step_count:
  assumes "tb x batch = Inr (xp, cnt)"
    and "shape xp = [B, M, C]"
    and "in_channels slf = int C" "out_channels slf = 2 * int C" "num_layers slf = int L"
    and "lstm_ok call (lstm slf) L B (2 * C) C"
    and "0 < processing_steps slf"
  shows "\<exists>out fr z q0. forward tb call slf x batch = Inr (out, fr) \<and>
      new_zeros [num_layers slf, int B, in_channels slf] = Inr z \<and>
      new_zeros [1, int B, out_channels slf] = Inr q0 \<and>
      invocations call (nat (processing_steps slf))
        \<lparr>self = slf, h = (z, z), q_star = q0, lstm_calls = 0\<rparr> fr \<and>
      int (lstm_calls fr) = processing_steps slf"
proof -
  from forward_run [of tb x batch xp cnt B M C slf L call] assms obtain out fr where
    f: "forward tb call slf x batch = Inr (out, fr)"
    and n: "lstm_calls fr = nat (processing_steps slf)"
    by blast
  from forward_entry [OF f] assms(1,2) obtain z q0 where
    z: "new_zeros [num_layers slf, int B, in_channels slf] = Inr z"
    and q0: "new_zeros [1, int B, out_channels slf] = Inr q0"
    and l: "loop call xp B M (nat (processing_steps slf))
        \<lparr>self = slf, h = (z, z), q_star = q0, lstm_calls = 0\<rparr> = Inr fr"
    by auto
  let ?fr0 = "\<lparr>self = slf, h = (z, z), q_star = q0, lstm_calls = 0\<rparr>"
  have "[int L, int B, int C] = map int [L, B, C]" by simp
  then have zv: "z = \<lparr>shape = [L, B, C], data = replicate (prod_list [L, B, C]) 0\<rparr>"
    using z by (simp only: assms new_zeros_map_int sum.inject)
  have "[1, int B, 2 * int C] = map int [1, B, 2 * C]" by simp
  then have qv: "q0 = \<lparr>shape = [1, B, 2 * C], data = replicate (prod_list [1, B, 2 * C]) 0\<rparr>"
    using q0 by (simp only: assms new_zeros_map_int sum.inject)
  have f0: "frame_ok L B C ?fr0"
    by (simp add: frame_ok_def zv qv well_shaped_def assms)
  have ok0: "lstm_ok call (lstm (self ?fr0)) L B (2 * C) C"
    using assms(6) by simp
  from loop_invocations [OF assms(2) f0 ok0, where n = "nat (processing_steps slf)"] l
  have "invocations call (nat (processing_steps slf)) ?fr0 fr"
    by simp
  with f z q0 n assms(7) show ?thesis by simp
qed

theorem forward_step_count_witness:
  "\<exists>out fr z q0. forward to_batch_spec demo_lstm
       \<lparr>in_channels = 1, out_channels = 2, processing_steps = 3, num_layers = 1, lstm = 1\<rparr>
       \<lparr>shape = [3, 1], data = [1, 2, 3]\<rparr> [0, 0, 1] = Inr (out, fr) \<and>
     invocations demo_lstm 3
       \<lparr>self = \<lparr>in_channels = 1, out_channels = 2, processing_steps = 3, num_layers = 1,
                lstm = 1\<rparr>, h = (z, z), q_star = q0, lstm_calls = 0\<rparr> fr \<and>
     lstm_calls fr = 3"
  using forward_step_count [of to_batch_spec "\<lparr>shape = [3, 1], data = [1, 2, 3]\<rparr>" "[0, 0, 1]"
      _ _ 2 2 1
      "\<lparr>in_channels = 1, out_channels = 2, processing_steps = 3, num_layers = 1, lstm = 1\<rparr>"
      1 demo_lstm, OF demo_to_batch]
  by (auto simp: lstm_ok_demo)

text \<open>
  Claim C6. With \<open>processing_steps = 0\<close>, \<^verbatim>\<open>forward\<close> calls the recurrent primitive
  not at all, and returns the initial \<open>q_star\<close>, all zero, in the shape
  (num_sets, 2 * in_channels).
\<close>

theorem forward_zero_steps:
  assumes "tb x batch = Inr (xp, cnt)"
    and "shape xp = [B, M, C]"
    and "0 \<le> in_channels slf" "0 \<le> num_layers slf" "out_channels slf = 2 * in_channels slf"
    and "processing_steps slf = 0"
  shows "\<exists>fr. forward tb call slf x batch =
        Inr (\<lparr>shape = [B, nat (2 * in_channels slf)],
              data = replicate (B * nat (2 * in_channels slf)) 0\<rparr>, fr) \<and>
      lstm_calls fr = 0 \<and>
      q_star fr = \<lparr>shape = [1, B, nat (2 * in_channels slf)],
                    data = replicate (B * nat (2 * in_channels slf)) 0\<rparr>"
  using forward_no_rounds [of tb x batch xp cnt B M C slf call] assms by simp

theorem forward_zero_steps_witness:
  "\<exists>fr. forward to_batch_spec demo_lstm
       \<lparr>in_channels = 1, out_channels = 2, processing_steps = 0, num_layers = 1, lstm = 1\<rparr>
       \<lparr>shape = [3, 1], data = [1, 2, 3]\<rparr> [0, 0, 1] =
       Inr (\<lparr>shape = [2, 2], data = [0, 0, 0, 0]\<rparr>, fr) \<and> lstm_calls fr = 0"
  using forward_zero_steps [of to_batch_spec "\<lparr>shape = [3, 1], data = [1, 2, 3]\<rparr>" "[0, 0, 1]"
      _ _ 2 2 1
      "\<lparr>in_channels = 1, out_channels = 2, processing_steps = 0, num_layers = 1, lstm = 1\<rparr>"
      demo_lstm, OF demo_to_batch]
  by (auto simp: numeral_eq_Suc)

text \<open>
  Claim C10. With \<open>processing_steps\<close> negative, \<^verbatim>\<open>forward\<close> raises no error, runs no
  round, and returns the all-zero tensor of shape (num_sets, 2 * in_channels), the tensor
  it returns for \<open>processing_steps = 0\<close>.
\<close>

theorem forward_negative_steps:
  assumes "tb x batch = Inr (xp, cnt)"
    and "shape xp = [B, M, C]"
    and "0 \<le> in_channels slf" "0 \<le> num_layers slf" "out_channels slf = 2 * in_channels slf"
    and "processing_steps slf < 0"
  shows "\<exists>fr fr0.
      forward tb call slf x batch =
        Inr (\<lparr>shape = [B, nat (2 * in_channels slf)],
              data = replicate (B * nat (2 * in_channels slf)) 0\<rparr>, fr) \<and>
      lstm_calls fr = 0 \<and>
      forward tb call (slf\<lparr>processing_steps := 0\<rparr>) x batch =
        Inr (\<lparr>shape = [B, nat (2 * in_channels slf)],
              data = replicate (B * nat (2 * in_channels slf)) 0\<rparr>, fr0)"
  using forward_no_rounds [of tb x batch xp cnt B M C slf call]
    forward_no_rounds [of tb x batch xp cnt B M C "slf\<lparr>processing_steps := 0\<rparr>" call] assms
  by simp

theorem forward_negative_steps_witness:
  "\<exists>fr. forward to_batch_spec demo_lstm
       \<lparr>in_channels = 1, out_channels = 2, processing_steps = - 5, num_layers = 1, lstm = 1\<rparr>
       \<lparr>shape = [3, 1], data = [1, 2, 3]\<rparr> [0, 0, 1] =
       Inr (\<lparr>shape = [2, 2], data = [0, 0, 0, 0]\<rparr>, fr) \<and> lstm_calls fr = 0"
  using forward_negative_steps [of to_batch_spec "\<lparr>shape = [3, 1], data = [1, 2, 3]\<rparr>" "[0, 0, 1]"
      _ _ 2 2 1
      "\<lparr>in_channels = 1, out_channels = 2, processing_steps = - 5, num_layers = 1, lstm = 1\<rparr>"
      demo_lstm, OF demo_to_batch]
  by (auto simp: numeral_eq_Suc)

section \<open>One round of attention\<close>

text \<open>
  Claim C3. In a round in which the recurrent primitive returns \<open>q\<close> of shape
  (1, num_sets, C), the scores of line 57 are the dot products
  \<open>e[s, j] = sum_c x[s, j, c] * q[s, c]\<close>, the weights of lines 58 and 59 are their
  softmax within each set, the readout of line 60 is \<open>r[s] = sum_j a[s, j] * x[s, j]\<close>, and
  the next \<open>q_star\<close> has the shape (1, num_sets, 2C) and holds, for each set, \<open>q\<close>
  followed by \<open>r\<close>.
\<close>

theorem body_attention:
  assumes call: "call (lstm (self fr)) (q_star fr) (h fr) = Inr (q, hc)"
    and q: "shape q = [1, B, C]" "well_shaped q"
    and x: "shape x = [B, M, C]"
    and cfg: "in_channels (self fr) = int C" "out_channels (self fr) = 2 * int C"
  shows "\<exists>qv e a r fr'.
      view q [int B, 1, in_channels (self fr)] = Inr qv \<and>
      scores x qv = Inr e \<and> weights e B M = Inr a \<and> readout a x = Inr r \<and>
      body call x B M fr = Inr fr' \<and>
      shape e = [B, M] \<and> (\<forall>s<B. \<forall>j<M. at2 e s j = score_spec x q s j) \<and>
      shape a = [B, M, 1] \<and> (\<forall>s<B. \<forall>j<M. at3 a s j 0 = attention_spec x q s j) \<and>
      shape r = [B, 1, C] \<and> (\<forall>s<B. \<forall>c<C. at3 r s 0 c = readout_spec x q s c) \<and>
      shape (q_star fr') = [1, B, 2 * C] \<and>
      (\<forall>s<B. \<forall>c<C. at3 (q_star fr') 0 s c = at3 q 0 s c \<and>
                     at3 (q_star fr') 0 s (C + c) = readout_spec x q s c)"
proof -
  from body_run [of call fr, OF call q x cfg] obtain qv e a r qs where
    qv: "qv = \<lparr>shape = [B, 1, C], data = data q\<rparr>"
    and v: "view q [int B, 1, in_channels (self fr)] = Inr qv"
    and run: "scores x qv = Inr e" "weights e B M = Inr a" "readout a x = Inr r"
    and e: "e = tabulate2 B M (\<lambda>s j. sum_list (map (\<lambda>c. at3 x s j c * at3 qv s 0 c) [0..<C]))"
    and a: "a = \<lparr>shape = [B, M, 1], data = data (tabulate2 B M (\<lambda>s j.
            exp (at2 e s j) / sum_list (map (\<lambda>j'. exp (at2 e s j')) [0..<M])))\<rparr>"
    and r: "r = tabulate3 B 1 C (\<lambda>s j c. sum_list (map (\<lambda>j'. at3 a s j' 0 * at3 x s j' c) [0..<M]))"
    and qs: "qs = tabulate3 B 1 (C + C) (\<lambda>i j k. if k < C then at3 qv i j k else at3 r i j (k - C))"
    and b: "body call x B M fr =
        Inr (fr\<lparr>h := hc, q_star := \<lparr>shape = [1, B, 2 * C], data = data qs\<rparr>,
                lstm_calls := lstm_calls fr + 1\<rparr>)"
    by blast
  have qv_q: "at3 qv s 0 c = at3 q 0 s c" for s c
    using q by (simp add: qv at3_def)
  have E: "at2 e s j = score_spec x q s j" if "s < B" "j < M" for s j
    using that x by (simp add: e score_spec_def sum_list_upt qv_q)
  have A: "at3 a s j 0 = attention_spec x q s j" if sj: "s < B" "j < M" for s j
  proof -
    have "at3 a s j 0 = at2 (tabulate2 B M (\<lambda>s j.
            exp (at2 e s j) / sum_list (map (\<lambda>j'. exp (at2 e s j')) [0..<M]))) s j"
      by (simp add: a at3_def at2_def)
    also have "\<dots> = exp (at2 e s j) / (\<Sum>j'<M. exp (at2 e s j'))"
      using sj by (simp add: sum_list_upt)
    also have "\<dots> = attention_spec x q s j"
      using sj x by (simp add: attention_spec_def E)
    finally show ?thesis .
  qed
  have R: "at3 r s 0 c = readout_spec x q s c" if sc: "s < B" "c < C" for s c
    using sc x by (simp add: r readout_spec_def sum_list_upt A)
  have Q: "at3 \<lparr>shape = [1, B, 2 * C], data = data qs\<rparr> 0 s k = at3 qs s 0 k" for s k
    by (simp add: at3_def qs mult_2)
  have Q1: "at3 \<lparr>shape = [1, B, 2 * C], data = data qs\<rparr> 0 s c = at3 q 0 s c"
    if sc: "s < B" "c < C" for s c
  proof -
    have "at3 qs s 0 c = at3 q 0 s c"
      using sc by (simp add: qs qv_q)
    then show ?thesis by (simp only: Q)
  qed
  have Q2: "at3 \<lparr>shape = [1, B, 2 * C], data = data qs\<rparr> 0 s (C + c) = readout_spec x q s c"
    if sc: "s < B" "c < C" for s c
  proof -
    have "at3 qs s 0 (C + c) = readout_spec x q s c"
      using sc by (simp add: qs R)
    then show ?thesis by (simp only: Q)
  qed
  show ?thesis
    using v run b E A R Q1 Q2 by (simp add: e a r)
qed

theorem body_attention_witness:
  "\<exists>fr'. body demo_lstm \<lparr>shape = [2, 2, 1], data = [1, 2, 3, 0]\<rparr> 2 2
       \<lparr>self = \<lparr>in_channels = 1, out_channels = 2, processing_steps = 3, num_layers = 1,
                lstm = 1\<rparr>,
        h = (\<lparr>shape = [1, 2, 1], data = [0, 0]\<rparr>, \<lparr>shape = [1, 2, 1], data = [0, 0]\<rparr>),
        q_star = \<lparr>shape = [1, 2, 2], data = [0, 0, 0, 0]\<rparr>, lstm_calls = 0\<rparr> = Inr fr' \<and>
     shape (q_star fr') = [1, 2, 2]"
proof -
  let ?z = "\<lparr>shape = [1, 2, 1], data = [0, 0]\<rparr>"
  let ?q0 = "\<lparr>shape = [1, 2, 2], data = [0, 0, 0, 0]\<rparr>"
  let ?fr = "\<lparr>self = \<lparr>in_channels = 1, out_channels = 2, processing_steps = 3, num_layers = 1,
                lstm = 1::real\<rparr>, h = (?z, ?z), q_star = ?q0, lstm_calls = 0\<rparr>"
  let ?q = "tabulate3 1 2 1 (\<lambda>i s k. 1 + at3 ?q0 i s (1 + k))"
  have c: "demo_lstm (lstm (self ?fr)) (q_star ?fr) (h ?fr) = Inr (?q, (?z, ?z))"
    by (simp add: demo_lstm_def)
  from body_attention [of demo_lstm ?fr ?q "(?z, ?z)" 2 1
      "\<lparr>shape = [2, 2, 1], data = [1, 2, 3, 0]\<rparr>" 2, OF c]
  show ?thesis by auto
qed

text \<open>
  Lines 57 to 59 on a set with padding: a zero row has score 0 and adds \<open>exp 0 = 1\<close> to
  the denominator of the softmax of its set.
\<close>

lemma padding_scores_weights:
  assumes x: "shape x = [B, M, C]" and q: "shape q = [B, 1, C]"
    and s: "s < B" and n: "n < M"
    and pad: "\<forall>j. n \<le> j \<and> j < M \<longrightarrow> (\<forall>c<C. at3 x s j c = 0)"
  shows "\<exists>e a. scores x q = Inr e \<and> weights e B M = Inr a \<and>
      (\<forall>j. n \<le> j \<and> j < M \<longrightarrow> at2 e s j = 0) \<and>
      (\<Sum>j<M. exp (at2 e s j)) = (\<Sum>j<n. exp (at2 e s j)) + real (M - n) \<and>
      (\<forall>j<M. at3 a s j 0 = exp (at2 e s j) / (\<Sum>j'<M. exp (at2 e s j'))) \<and>
      (\<forall>j. n \<le> j \<and> j < M \<longrightarrow>
         at3 a s j 0 = 1 / ((\<Sum>j<n. exp (at2 e s j)) + real (M - n)) \<and> 0 < at3 a s j 0) \<and>
      (\<Sum>j<M. at3 a s j 0) = 1"
proof -
  define f where "f = (\<lambda>s j. sum_list (map (\<lambda>c. at3 x s j c * at3 q s 0 c) [0..<C]))"
  define e where "e = tabulate2 B M f"
  have sc: "scores x q = Inr e"
    unfolding e_def f_def by (rule scores_explicit [OF x q])
  from weights_run [OF e_def] obtain a where
    w: "weights e B M = Inr a"
    and a: "\<And>j. j < M \<Longrightarrow> at3 a s j 0 = exp (at2 e s j) / (\<Sum>j'<M. exp (at2 e s j'))"
    using s by blast
  have zero: "at2 e s j = 0" if "n \<le> j" "j < M" for j
  proof -
    have "at2 e s j = (\<Sum>c<C. at3 x s j c * at3 q s 0 c)"
      using s that by (simp add: e_def f_def sum_list_upt)
    also have "\<dots> = 0"
      using pad that by simp
    finally show ?thesis .
  qed
  have "(\<Sum>j<M. exp (at2 e s j)) = (\<Sum>j<n. exp (at2 e s j)) + (\<Sum>j = n..<M. exp (at2 e s j))"
    using n sum.atLeastLessThan_concat [of 0 n M "\<lambda>j. exp (at2 e s j)"]
    by (simp add: atLeast0LessThan)
  also have "(\<Sum>j = n..<M. exp (at2 e s j)) = (\<Sum>j = n..<M. 1)"
    by (rule sum.cong) (simp_all add: zero)
  also have "\<dots> = real (M - n)"
    by simp
  finally have den: "(\<Sum>j<M. exp (at2 e s j)) = (\<Sum>j<n. exp (at2 e s j)) + real (M - n)" .
  have pos: "0 < (\<Sum>j<M. exp (at2 e s j))"
    using n by (intro sum_pos) auto
  have padw: "at3 a s j 0 = 1 / ((\<Sum>j<n. exp (at2 e s j)) + real (M - n)) \<and> 0 < at3 a s j 0"
    if nj: "n \<le> j" "j < M" for j
  proof -
    have "at3 a s j 0 = 1 / (\<Sum>j'<M. exp (at2 e s j'))"
      using nj by (simp add: a zero)
    then show ?thesis
      using pos by (simp add: den)
  qed
  have "(\<Sum>j<M. at3 a s j 0) = (\<Sum>j<M. exp (at2 e s j) / (\<Sum>j'<M. exp (at2 e s j')))"
    by (rule sum.cong) (simp_all add: a)
  also have "\<dots> = (\<Sum>j<M. exp (at2 e s j)) / (\<Sum>j'<M. exp (at2 e s j'))"
    by (rule sum_divide_distrib [symmetric])
  also have "\<dots> = 1"
    using pos by simp
  finally have one: "(\<Sum>j<M. at3 a s j 0) = 1" .
  show ?thesis
    using sc w zero den a padw one by blast
qed

text \<open>
  Claim C4. No position is masked. Take a round of \<^verbatim>\<open>forward\<close> and a set whose rows
  from position \<open>n\<close> on are padding (all zero), with \<open>n\<close> below \<open>max_set_size\<close>. Every
  padding position has score 0, adds \<open>exp 0 = 1\<close> to the denominator of the set's softmax,
  and receives the positive weight 1 / denominator; the weights of all \<open>max_set_size\<close>
  positions of the set add up to 1; and the readout of line 60, which the round stores in
  the second half of the set's row of \<open>q_star\<close>, is the sum over all \<open>max_set_size\<close>
  positions, padding included, each with its weight.
\<close>

theorem padding_not_masked:
  assumes call: "call (lstm (self fr)) (q_star fr) (h fr) = Inr (q, hc)"
    and q: "shape q = [1, B, C]" "well_shaped q"
    and x: "shape x = [B, M, C]"
    and cfg: "in_channels (self fr) = int C" "out_channels (self fr) = 2 * int C"
    and s: "s < B" and n: "n < M"
    and pad: "\<forall>j. n \<le> j \<and> j < M \<longrightarrow> (\<forall>c<C. at3 x s j c = 0)"
  shows "\<exists>qv e a r fr'.
      view q [int B, 1, in_channels (self fr)] = Inr qv \<and>
      scores x qv = Inr e \<and> weights e B M = Inr a \<and> readout a x = Inr r \<and>
      body call x B M fr = Inr fr' \<and>
      (\<forall>j. n \<le> j \<and> j < M \<longrightarrow> at2 e s j = 0) \<and>
      (\<Sum>j<M. exp (at2 e s j)) = (\<Sum>j<n. exp (at2 e s j)) + real (M - n) \<and>
      (\<forall>j<M. at3 a s j 0 = exp (at2 e s j) / (\<Sum>j'<M. exp (at2 e s j'))) \<and>
      (\<forall>j. n \<le> j \<and> j < M \<longrightarrow>
         at3 a s j 0 = 1 / ((\<Sum>j<n. exp (at2 e s j)) + real (M - n)) \<and> 0 < at3 a s j 0) \<and>
      (\<Sum>j<M. at3 a s j 0) = 1 \<and>
      (\<forall>c<C. at3 r s 0 c = (\<Sum>j<M. at3 a s j 0 * at3 x s j c) \<and>
             at3 (q_star fr') 0 s (C + c) = at3 r s 0 c)"
proof -
  from body_run [of call fr, OF call q x cfg] obtain qv e a r qs where
    qv: "qv = \<lparr>shape = [B, 1, C], data = data q\<rparr>"
    and v: "view q [int B, 1, in_channels (self fr)] = Inr qv"
    and run: "scores x qv = Inr e" "weights e B M = Inr a" "readout a x = Inr r"
    and r: "r = tabulate3 B 1 C (\<lambda>s j c. sum_list (map (\<lambda>j'. at3 a s j' 0 * at3 x s j' c) [0..<M]))"
    and qs: "qs = tabulate3 B 1 (C + C) (\<lambda>i j k. if k < C then at3 qv i j k else at3 r i j (k - C))"
    and b: "body call x B M fr =
        Inr (fr\<lparr>h := hc, q_star := \<lparr>shape = [1, B, 2 * C], data = data qs\<rparr>,
                lstm_calls := lstm_calls fr + 1\<rparr>)"
    by blast
  have sqv: "shape qv = [B, 1, C]" by (simp add: qv)
  from padding_scores_weights [OF x sqv s n pad] run obtain
    zero: "\<forall>j. n \<le> j \<and> j < M \<longrightarrow> at2 e s j = 0"
    and den: "(\<Sum>j<M. exp (at2 e s j)) = (\<Sum>j<n. exp (at2 e s j)) + real (M - n)"
    and a: "\<forall>j<M. at3 a s j 0 = exp (at2 e s j) / (\<Sum>j'<M. exp (at2 e s j'))"
    and padw: "\<forall>j. n \<le> j \<and> j < M \<longrightarrow>
         at3 a s j 0 = 1 / ((\<Sum>j<n. exp (at2 e s j)) + real (M - n)) \<and> 0 < at3 a s j 0"
    and one: "(\<Sum>j<M. at3 a s j 0) = 1"
    by auto
  have R: "at3 r s 0 c = (\<Sum>j<M. at3 a s j 0 * at3 x s j c)" if "c < C" for c
    using s that by (simp add: r sum_list_upt)
  have Q: "at3 \<lparr>shape = [1, B, 2 * C], data = data qs\<rparr> 0 s (C + c) = at3 r s 0 c"
    if c: "c < C" for c
  proof -
    have "at3 \<lparr>shape = [1, B, 2 * C], data = data qs\<rparr> 0 s (C + c) = at3 qs s 0 (C + c)"
      by (simp add: at3_def qs mult_2)
    also have "\<dots> = at3 r s 0 c"
      using s c by (simp add: qs)
    finally show ?thesis .
  qed
  show ?thesis
    using v run b zero den a padw one R Q by simp
qed

theorem padding_not_masked_witness:
  "\<exists>e a r fr'.
     body demo_lstm \<lparr>shape = [2, 2, 1], data = [1, 2, 3, 0]\<rparr> 2 2
       \<lparr>self = \<lparr>in_channels = 1, out_channels = 2, processing_steps = 3, num_layers = 1,
                lstm = 1\<rparr>,
        h = (\<lparr>shape = [1, 2, 1], data = [0, 0]\<rparr>, \<lparr>shape = [1, 2, 1], data = [0, 0]\<rparr>),
        q_star = \<lparr>shape = [1, 2, 2], data = [0, 0, 0, 0]\<rparr>, lstm_calls = 0\<rparr> = Inr fr' \<and>
     at2 e 1 1 = 0 \<and>
     at3 a 1 1 0 = 1 / (exp (at2 e 1 0) + 1) \<and> at3 a 1 0 0 + at3 a 1 1 0 = 1 \<and>
     at3 r 1 0 0 = at3 a 1 0 0 * 3 + at3 a 1 1 0 * 0 \<and>
     at3 (q_star fr') 0 1 1 = at3 r 1 0 0"
proof -
  let ?x = "\<lparr>shape = [2, 2, 1], data = [1, 2, 3, 0]\<rparr>"
  let ?z = "\<lparr>shape = [1, 2, 1], data = [0, 0]\<rparr>"
  let ?q0 = "\<lparr>shape = [1, 2, 2], data = [0, 0, 0, 0]\<rparr>"
  let ?fr = "\<lparr>self = \<lparr>in_channels = 1, out_channels = 2, processing_steps = 3, num_layers = 1,
                lstm = 1::real\<rparr>, h = (?z, ?z), q_star = ?q0, lstm_calls = 0\<rparr>"
  let ?q = "tabulate3 1 2 1 (\<lambda>i s k. 1 + at3 ?q0 i s (1 + k))"
  have c: "demo_lstm (lstm (self ?fr)) (q_star ?fr) (h ?fr) = Inr (?q, (?z, ?z))"
    by (simp add: demo_lstm_def)
  have pad: "\<forall>j. 1 \<le> j \<and> j < (2::nat) \<longrightarrow> (\<forall>c<1::nat. at3 ?x 1 j c = 0)"
  proof (intro allI impI)
    fix j c :: nat assume "1 \<le> j \<and> j < 2" "c < 1"
    then have "j = 1" "c = 0" by simp_all
    then show "at3 ?x 1 j c = 0" by (simp add: at3_def)
  qed
  from padding_not_masked [of demo_lstm ?fr ?q "(?z, ?z)" 2 1 ?x 2 1 1, OF c _ _ _ _ _ _ _ pad]
  obtain e a r fr' where
    b: "body demo_lstm ?x 2 2 ?fr = Inr fr'"
    and z: "\<forall>j. 1 \<le> j \<and> j < 2 \<longrightarrow> at2 e 1 j = 0"
    and p: "\<forall>j. 1 \<le> j \<and> j < 2 \<longrightarrow>
         at3 a 1 j 0 = 1 / ((\<Sum>j<1. exp (at2 e 1 j)) + real (2 - 1)) \<and> 0 < at3 a 1 j 0"
    and o: "(\<Sum>j<2. at3 a 1 j 0) = 1"
    and rr: "\<forall>c<1. at3 r 1 0 c = (\<Sum>j<2. at3 a 1 j 0 * at3 ?x 1 j c) \<and>
             at3 (q_star fr') 0 1 (1 + c) = at3 r 1 0 c"
    by auto
  from z have "at2 e 1 1 = 0" by simp
  moreover from p have "at3 a 1 1 0 = 1 / (exp (at2 e 1 0) + 1)" by simp
  moreover from o have "at3 a 1 0 0 + at3 a 1 1 0 = 1" by (simp add: lessThan_Suc numeral_2_eq_2)
  moreover from rr have "at3 r 1 0 0 = at3 a 1 0 0 * 3 + at3 a 1 1 0 * 0"
    by (simp add: lessThan_Suc numeral_2_eq_2 at3_def)
  moreover from rr have "at3 (q_star fr') 0 1 1 = at3 r 1 0 0" by simp
  ultimately show ?thesis using b by blast
qed

section \<open>The frame\<close>

text \<open>
  Claim C9. A call of \<^verbatim>\<open>forward\<close> that returns leaves the object as it was: the four
  configuration fields and the weights of the recurrent primitive. Its loop starts from a
  recurrent state and a \<open>q_star\<close> that the call has allocated itself, all zero, so nothing
  of an earlier call enters it.
\<close>

theorem forward_frame:
  assumes "forward tb call slf x batch = Inr (out, fr)"
  shows "self fr = slf \<and>
    (\<exists>xp cnt B M C z q0.
      tb x batch = Inr (xp, cnt) \<and> shape xp = [B, M, C] \<and>
      new_zeros [num_layers slf, int B, in_channels slf] = Inr z \<and> set (data z) \<subseteq> {0} \<and>
      new_zeros [1, int B, out_channels slf] = Inr q0 \<and> set (data q0) \<subseteq> {0} \<and>
      loop call xp B M (nat (processing_steps slf))
        \<lparr>self = slf, h = (z, z), q_star = q0, lstm_calls = 0\<rparr> = Inr fr)"
proof -
  from forward_entry [OF assms] obtain xp cnt B M C z q0 where
    e: "tb x batch = Inr (xp, cnt)" "shape xp = [B, M, C]"
      "new_zeros [num_layers slf, int B, in_channels slf] = Inr z"
      "new_zeros [1, int B, out_channels slf] = Inr q0"
      "loop call xp B M (nat (processing_steps slf))
        \<lparr>self = slf, h = (z, z), q_star = q0, lstm_calls = 0\<rparr> = Inr fr"
    by blast
  from new_zeros_data [OF e(3)] new_zeros_data [OF e(4)] e forward_self [OF assms]
  show ?thesis by blast
qed

theorem forward_frame_witness:
  "\<exists>out fr. forward to_batch_spec demo_lstm
       \<lparr>in_channels = 1, out_channels = 2, processing_steps = 3, num_layers = 1, lstm = 1\<rparr>
       \<lparr>shape = [3, 1], data = [1, 2, 3]\<rparr> [0, 0, 1] = Inr (out, fr) \<and>
     self fr =
       \<lparr>in_channels = 1, out_channels = 2, processing_steps = 3, num_layers = 1, lstm = 1\<rparr>"
proof -
  let ?slf = "\<lparr>in_channels = 1, out_channels = 2, processing_steps = 3, num_layers = 1,
    lstm = 1::real\<rparr>"
  let ?x = "\<lparr>shape = [3, 1], data = [1, 2, 3]\<rparr>"
  from forward_run [of to_batch_spec ?x "[0, 0, 1]" _ _ 2 2 1 ?slf 1 demo_lstm, OF demo_to_batch]
  obtain out fr where r: "forward to_batch_spec demo_lstm ?slf ?x [0, 0, 1] = Inr (out, fr)"
    by (auto simp: lstm_ok_demo)
  from forward_frame [OF r] r show ?thesis by blast
qed

section \<open>The order of the elements of a set\<close>

text \<open>
  Rows of the padded tensor rearranged within each set leave the readout of a round, and
  with it the whole run of the loop, as they are: the sums over the positions of a set do
  not depend on their order.
\<close>

lemma view_map_int_shape: "view t (map int sh) = Inr v \<Longrightarrow> shape v = sh"
  by (auto simp: view_def split: if_splits)

lemma attend_permuted:
  assumes x: "shape x = [B, M, C]" and x': "shape x' = [B, M, C]"
    and q: "shape q = [B, 1, C]"
    and bij: "\<And>s. s < B \<Longrightarrow> bij_betw (\<sigma> s) {..<M} {..<M}"
    and perm: "\<And>s j c. s < B \<Longrightarrow> j < M \<Longrightarrow> c < C \<Longrightarrow> at3 x' s j c = at3 x s (\<sigma> s j) c"
  shows "\<exists>e e' a a' r. scores x q = Inr e \<and> scores x' q = Inr e' \<and>
      weights e B M = Inr a \<and> weights e' B M = Inr a' \<and>
      readout a x = Inr r \<and> readout a' x' = Inr r"
proof -
  define f where "f = (\<lambda>s j. sum_list (map (\<lambda>c. at3 x s j c * at3 q s 0 c) [0..<C]))"
  define f' where "f' = (\<lambda>s j. sum_list (map (\<lambda>c. at3 x' s j c * at3 q s 0 c) [0..<C]))"
  define w where "w = (\<lambda>s j. exp (f s j) / (\<Sum>j'<M. exp (f s j')))"
  define w' where "w' = (\<lambda>s j. exp (f' s j) / (\<Sum>j'<M. exp (f' s j')))"
  define a where "a = \<lparr>shape = [B, M, 1], data = data (tabulate2 B M (\<lambda>s j.
            exp (f s j) / sum_list (map (\<lambda>j'. exp (f s j')) [0..<M])))\<rparr>"
  define a' where "a' = \<lparr>shape = [B, M, 1], data = data (tabulate2 B M (\<lambda>s j.
            exp (f' s j) / sum_list (map (\<lambda>j'. exp (f' s j')) [0..<M])))\<rparr>"
  have in_range: "\<sigma> s j < M" if "s < B" "j < M" for s j
    using bij [OF that(1)] that(2) by (auto simp: bij_betw_def)
  have reindex: "(\<Sum>j<M. g (\<sigma> s j)) = (\<Sum>j<M. g j)" if "s < B" for s and g :: "nat \<Rightarrow> real"
    by (rule sum.reindex_bij_betw [OF bij [OF that]])
  have ff: "f' s j = f s (\<sigma> s j)" if "s < B" "j < M" for s j
    unfolding f_def f'_def using that by (intro sum_list_upt_cong) (simp add: perm)
  have den: "(\<Sum>j'<M. exp (f' s j')) = (\<Sum>j'<M. exp (f s j'))" if s: "s < B" for s
  proof -
    have "(\<Sum>j'<M. exp (f' s j')) = (\<Sum>j'<M. exp (f s (\<sigma> s j')))"
      by (rule sum.cong) (simp_all add: ff s)
    also have "\<dots> = (\<Sum>j'<M. exp (f s j'))"
      by (rule reindex [OF s])
    finally show ?thesis .
  qed
  have ww: "w' s j = w s (\<sigma> s j)" if "s < B" "j < M" for s j
    by (simp only: w_def w'_def den [OF that(1)] ff [OF that])
  have s1: "scores x q = Inr (tabulate2 B M f)"
    unfolding f_def by (rule scores_explicit [OF x q])
  have s2: "scores x' q = Inr (tabulate2 B M f')"
    unfolding f'_def by (rule scores_explicit [OF x' q])
  have w1: "weights (tabulate2 B M f) B M = Inr a"
    unfolding a_def by (rule weights_explicit)
  have w2: "weights (tabulate2 B M f') B M = Inr a'"
    unfolding a'_def by (rule weights_explicit)
  have aw: "at3 a s j 0 = w s j" if "s < B" "j < M" for s j
  proof -
    have "at3 a s j 0 = at2 (tabulate2 B M (\<lambda>s j.
            exp (f s j) / sum_list (map (\<lambda>j'. exp (f s j')) [0..<M]))) s j"
      by (simp add: a_def at3_def at2_def)
    then show ?thesis using that by (simp add: w_def sum_list_upt)
  qed
  have aw': "at3 a' s j 0 = w' s j" if "s < B" "j < M" for s j
  proof -
    have "at3 a' s j 0 = at2 (tabulate2 B M (\<lambda>s j.
            exp (f' s j) / sum_list (map (\<lambda>j'. exp (f' s j')) [0..<M]))) s j"
      by (simp add: a'_def at3_def at2_def)
    then show ?thesis using that by (simp add: w'_def sum_list_upt)
  qed
  have r1: "readout a x =
      Inr (tabulate3 B 1 C (\<lambda>s j c. sum_list (map (\<lambda>j'. at3 a s j' 0 * at3 x s j' c) [0..<M])))"
    by (rule readout_explicit) (simp_all add: a_def x)
  have r2: "readout a' x' =
      Inr (tabulate3 B 1 C (\<lambda>s j c. sum_list (map (\<lambda>j'. at3 a' s j' 0 * at3 x' s j' c) [0..<M])))"
    by (rule readout_explicit) (simp_all add: a'_def x')
  have "tabulate3 B 1 C (\<lambda>s j c. sum_list (map (\<lambda>j'. at3 a' s j' 0 * at3 x' s j' c) [0..<M])) =
        tabulate3 B 1 C (\<lambda>s j c. sum_list (map (\<lambda>j'. at3 a s j' 0 * at3 x s j' c) [0..<M]))"
  proof (rule tabulate3_cong)
    fix s j c assume s: "s < B" and c: "c < C"
    have "sum_list (map (\<lambda>j'. at3 a' s j' 0 * at3 x' s j' c) [0..<M]) =
          (\<Sum>j'<M. at3 a' s j' 0 * at3 x' s j' c)"
      by (rule sum_list_upt)
    also have "\<dots> = (\<Sum>j'<M. w s (\<sigma> s j') * at3 x s (\<sigma> s j') c)"
      by (rule sum.cong) (simp_all add: aw' ww perm s c)
    also have "\<dots> = (\<Sum>j'<M. w s j' * at3 x s j' c)"
      by (rule reindex [OF s, of "\<lambda>j'. w s j' * at3 x s j' c"])
    also have "\<dots> = (\<Sum>j'<M. at3 a s j' 0 * at3 x s j' c)"
      by (rule sum.cong) (simp_all add: aw s)
    also have "\<dots> = sum_list (map (\<lambda>j'. at3 a s j' 0 * at3 x s j' c) [0..<M])"
      by (rule sum_list_upt [symmetric])
    finally show "sum_list (map (\<lambda>j'. at3 a' s j' 0 * at3 x' s j' c) [0..<M]) =
          sum_list (map (\<lambda>j'. at3 a s j' 0 * at3 x s j' c) [0..<M])" .
  qed
  with r2 have r2': "readout a' x' =
      Inr (tabulate3 B 1 C (\<lambda>s j c. sum_list (map (\<lambda>j'. at3 a s j' 0 * at3 x s j' c) [0..<M])))"
    by simp
  from s1 s2 w1 w2 r1 r2' show ?thesis by blast
qed

lemma body_permuted:
  assumes x: "shape x = [B, M, C]" and x': "shape x' = [B, M, C]"
    and bij: "\<And>s. s < B \<Longrightarrow> bij_betw (\<sigma> s) {..<M} {..<M}"
    and perm: "\<And>s j c. s < B \<Longrightarrow> j < M \<Longrightarrow> c < C \<Longrightarrow> at3 x' s j c = at3 x s (\<sigma> s j) c"
    and cfg: "in_channels (self fr) = int C"
  shows "body call x' B M fr = body call x B M fr"
proof (cases "call (lstm (self fr)) (q_star fr) (h fr)")
  case (Inl err)
  then show ?thesis by (simp add: body_def)
next
  case (Inr res)
  obtain q hc where res: "res = (q, hc)" by (cases res)
  have sz: "[int B, 1, in_channels (self fr)] = map int [B, 1, C]"
    by (simp add: cfg)
  show ?thesis
  proof (cases "view q [int B, 1, in_channels (self fr)]")
    case (Inl err)
    then show ?thesis by (simp add: body_def Inr res)
  next
    case v: (Inr qv)
    have "shape qv = [B, 1, C]"
      using v unfolding sz by (rule view_map_int_shape)
    from attend_permuted [OF x x' this bij perm] obtain e e' a a' r where
      "scores x qv = Inr e" "scores x' qv = Inr e'"
      "weights e B M = Inr a" "weights e' B M = Inr a'"
      "readout a x = Inr r" "readout a' x' = Inr r"
      by blast
    then show ?thesis by (simp add: body_def Inr res v)
  qed
qed

lemma loop_permuted:
  assumes x: "shape x = [B, M, C]" and x': "shape x' = [B, M, C]"
    and bij: "\<And>s. s < B \<Longrightarrow> bij_betw (\<sigma> s) {..<M} {..<M}"
    and perm: "\<And>s j c. s < B \<Longrightarrow> j < M \<Longrightarrow> c < C \<Longrightarrow> at3 x' s j c = at3 x s (\<sigma> s j) c"
  shows "in_channels (self fr) = int C \<Longrightarrow> loop call x' B M n fr = loop call x B M n fr"
proof (induction n arbitrary: fr)
  case 0
  show ?case by simp
next
  case (Suc n)
  have b: "body call x' B M fr = body call x B M fr"
    using x x' bij perm Suc.prems by (rule body_permuted)
  show ?case
  proof (cases "body call x B M fr")
    case (Inl err)
    then show ?thesis by (simp add: b)
  next
    case (Inr fr1)
    from body_self [OF Inr] Suc.prems have "in_channels (self fr1) = int C" by simp
    from Suc.IH [OF this] show ?thesis by (simp add: b Inr)
  qed
qed


lemma foldr_max_ge: "v \<in> set xs \<Longrightarrow> v \<le> foldr max xs (0::nat)"
  by (induction xs) auto

lemma set_members: "set (members batch s) = {i. i < length batch \<and> batch ! i = s}"
  by (auto simp: members_def)

lemma distinct_members: "distinct (members batch s)"
  by (simp add: members_def)

lemma members_le_max:
  assumes "s < num_sets batch"
  shows "length (members batch s) \<le> max_set_size batch"
proof -
  have "length (members batch s) \<in> set (set_sizes batch)"
    using assms by (simp add: set_sizes_def)
  then show ?thesis
    unfolding max_set_size_def by (rule foldr_max_ge)
qed

lemma positions_permuted:
  assumes p: "mset p = mset [0..<length batch]"
    and same: "\<And>i. i < length batch \<Longrightarrow> batch ! (p ! i) = batch ! i"
    and s: "s < num_sets batch"
  shows "\<exists>\<sigma>. bij_betw \<sigma> {..<max_set_size batch} {..<max_set_size batch} \<and>
     (\<forall>j<length (members batch s).
        \<sigma> j < length (members batch s) \<and> members batch s ! \<sigma> j = p ! (members batch s ! j)) \<and>
     (\<forall>j. length (members batch s) \<le> j \<longrightarrow> \<sigma> j = j)"
proof -
  define N where "N = length batch"
  define mem where "mem = members batch s"
  define n where "n = length mem"
  define M where "M = max_set_size batch"
  define A where "A = set mem"
  have lp: "length p = N"
    using mset_eq_length [OF p] by (simp add: N_def)
  have "set p = set [0..<length batch]"
    using p by (rule mset_eq_setD)
  then have sp: "set p = {..<N}"
    by (simp add: N_def atLeast0LessThan)
  have dp: "distinct p"
    using mset_eq_imp_distinct_iff [OF p] by simp
  have bp: "bij_betw ((!) p) {..<N} {..<N}"
    by (rule bij_betw_nth [OF dp]) (simp_all add: lp sp)
  have A: "A = {i. i < N \<and> batch ! i = s}"
    by (simp add: A_def mem_def set_members N_def)
  have "finite A" by (simp add: A_def)
  moreover have "(!) p ` A \<subseteq> A"
  proof
    fix v assume "v \<in> (!) p ` A"
    then obtain i where i: "i < N" "batch ! i = s" and v: "v = p ! i"
      by (auto simp: A)
    have "p ! i \<in> set p" using i lp by simp
    then have "p ! i < N" by (simp add: sp)
    moreover have "batch ! (p ! i) = s" using same i by (simp add: N_def)
    ultimately show "v \<in> A" by (simp add: A v)
  qed
  moreover have injp: "inj_on ((!) p) A"
  proof (rule inj_on_subset)
    show "inj_on ((!) p) {..<N}" using bp by (rule bij_betw_imp_inj_on)
    show "A \<subseteq> {..<N}" by (auto simp: A)
  qed
  ultimately have img: "(!) p ` A = A"
    by (rule endo_inj_surj)
  have bm: "bij_betw ((!) mem) {..<n} A"
    by (rule bij_betw_nth) (simp_all add: mem_def distinct_members n_def A_def)
  define \<sigma> where "\<sigma> = (\<lambda>j. if j < n then inv_into {..<n} ((!) mem) (p ! (mem ! j)) else j)"
  have inA: "p ! (mem ! j) \<in> A" if "j < n" for j
  proof -
    have "mem ! j \<in> A" using that by (simp add: A_def n_def)
    then show ?thesis using img by blast
  qed
  have img_mem: "(!) mem ` {..<n} = A"
    using bm by (simp add: bij_betw_def)
  have low: "\<sigma> j < n \<and> mem ! \<sigma> j = p ! (mem ! j)" if j: "j < n" for j
  proof -
    have "p ! (mem ! j) \<in> (!) mem ` {..<n}"
      using inA [OF j] by (simp add: img_mem)
    then have "inv_into {..<n} ((!) mem) (p ! (mem ! j)) \<in> {..<n}"
      and "mem ! inv_into {..<n} ((!) mem) (p ! (mem ! j)) = p ! (mem ! j)"
      by (rule inv_into_into, rule f_inv_into_f)
    then show ?thesis using j by (simp add: \<sigma>_def)
  qed
  have nM: "n \<le> M"
    unfolding n_def mem_def M_def by (rule members_le_max [OF s])
  have inj: "inj_on \<sigma> {..<M}"
  proof (rule inj_onI)
    fix j k assume jk: "j \<in> {..<M}" "k \<in> {..<M}" and eq: "\<sigma> j = \<sigma> k"
    show "j = k"
    proof (cases "j < n")
      case j: True
      show ?thesis
      proof (cases "k < n")
        case k: True
        from low [OF j] low [OF k] eq have "p ! (mem ! j) = p ! (mem ! k)" by simp
        moreover have "mem ! j \<in> A" "mem ! k \<in> A" using j k by (simp_all add: A_def n_def)
        ultimately have "mem ! j = mem ! k"
          using injp by (rule inj_onD [rotated])
        moreover have "distinct mem" by (simp add: mem_def distinct_members)
        ultimately show ?thesis
          using j k by (simp add: nth_eq_iff_index_eq n_def)
      next
        case False
        with low [OF j] eq show ?thesis by (simp add: \<sigma>_def)
      qed
    next
      case j: False
      show ?thesis
      proof (cases "k < n")
        case k: True
        with low [OF k] eq j show ?thesis by (simp add: \<sigma>_def)
      next
        case False
        with j eq show ?thesis by (simp add: \<sigma>_def)
      qed
    qed
  qed
  have "\<sigma> ` {..<M} \<subseteq> {..<M}"
  proof
    fix v assume "v \<in> \<sigma> ` {..<M}"
    then obtain j where j: "j < M" and v: "v = \<sigma> j" by auto
    show "v \<in> {..<M}"
    proof (cases "j < n")
      case True
      from low [OF True] nM show ?thesis by (simp add: v)
    next
      case False
      then show ?thesis using j by (simp add: v \<sigma>_def)
    qed
  qed
  with inj have "\<sigma> ` {..<M} = {..<M}"
    by (intro endo_inj_surj) simp_all
  with inj have "bij_betw \<sigma> {..<M} {..<M}"
    by (simp add: bij_betw_def)
  moreover have "\<forall>j. n \<le> j \<longrightarrow> \<sigma> j = j"
    by (simp add: \<sigma>_def)
  moreover have "\<forall>j<n. \<sigma> j < n \<and> mem ! \<sigma> j = p ! (mem ! j)"
    using low by simp
  ultimately have "bij_betw \<sigma> {..<M} {..<M} \<and>
     (\<forall>j<n. \<sigma> j < n \<and> mem ! \<sigma> j = p ! (mem ! j)) \<and> (\<forall>j. n \<le> j \<longrightarrow> \<sigma> j = j)"
    by simp
  then show ?thesis
    unfolding M_def n_def mem_def by (rule exI [of _ \<sigma>])
qed

text \<open>
  Claim C7. Let the N feature vectors be rearranged by a permutation \<open>p\<close> of their
  positions that moves every vector to a position with the same set-id, so the order
  changes within sets only (within a single set, in particular). With the batching
  primitive as the specification describes it, \<^verbatim>\<open>forward\<close> then has the same outcome,
  hence the same output row for every set. Arithmetic is exact here, so no tolerance is
  needed.
\<close>

theorem forward_permutation_invariant:
  assumes x: "shape x = [N, C]" and len: "length batch = N"
    and p: "mset p = mset [0..<N]"
    and same: "\<forall>i<N. batch ! (p ! i) = batch ! i"
    and cfg: "in_channels slf = int C"
  shows "forward to_batch_spec call slf (permute_rows p x) batch =
         forward to_batch_spec call slf x batch"
proof -
  define B where "B = num_sets batch"
  define M where "M = max_set_size batch"
  define x' where "x' = permute_rows p x"
  define xp where "xp = tabulate3 B M C
     (\<lambda>s j k. if j < length (members batch s) then at2 x (members batch s ! j) k else 0)"
  define xp' where "xp' = tabulate3 B M C
     (\<lambda>s j k. if j < length (members batch s) then at2 x' (members batch s ! j) k else 0)"
  have sx': "shape x' = [N, C]"
    by (simp add: x'_def permute_rows_def x)
  have tb: "to_batch_spec x batch = Inr (xp, set_sizes batch)"
    unfolding xp_def B_def M_def by (rule to_batch_spec_run [OF x len])
  have tb': "to_batch_spec x' batch = Inr (xp', set_sizes batch)"
    unfolding xp'_def B_def M_def by (rule to_batch_spec_run [OF sx' len])
  have "\<forall>s\<in>{..<B}. \<exists>\<sigma>. bij_betw \<sigma> {..<M} {..<M} \<and>
     (\<forall>j<length (members batch s).
        \<sigma> j < length (members batch s) \<and> members batch s ! \<sigma> j = p ! (members batch s ! j)) \<and>
     (\<forall>j. length (members batch s) \<le> j \<longrightarrow> \<sigma> j = j)"
  proof
    fix s assume "s \<in> {..<B}"
    then have s: "s < num_sets batch" by (simp add: B_def)
    have p': "mset p = mset [0..<length batch]" using p len by simp
    have same': "batch ! (p ! i) = batch ! i" if "i < length batch" for i
      using same len that by simp
    show "\<exists>\<sigma>. bij_betw \<sigma> {..<M} {..<M} \<and>
     (\<forall>j<length (members batch s).
        \<sigma> j < length (members batch s) \<and> members batch s ! \<sigma> j = p ! (members batch s ! j)) \<and>
     (\<forall>j. length (members batch s) \<le> j \<longrightarrow> \<sigma> j = j)"
      unfolding M_def using p' same' s by (rule positions_permuted)
  qed
  from bchoice [OF this] obtain \<sigma> where
    all: "\<forall>s\<in>{..<B}. bij_betw (\<sigma> s) {..<M} {..<M} \<and>
     (\<forall>j<length (members batch s).
        \<sigma> s j < length (members batch s) \<and> members batch s ! \<sigma> s j = p ! (members batch s ! j)) \<and>
     (\<forall>j. length (members batch s) \<le> j \<longrightarrow> \<sigma> s j = j)" ..
  have bij: "bij_betw (\<sigma> s) {..<M} {..<M}" if "s < B" for s
    using all that by simp
  have low: "\<sigma> s j < length (members batch s) \<and> members batch s ! \<sigma> s j = p ! (members batch s ! j)"
    if "s < B" "j < length (members batch s)" for s j
    using all that by simp
  have high: "\<sigma> s j = j" if "s < B" "length (members batch s) \<le> j" for s j
    using all that by simp
  have perm: "at3 xp' s j c = at3 xp s (\<sigma> s j) c" if sjc: "s < B" "j < M" "c < C" for s j c
  proof -
    have \<sigma>M: "\<sigma> s j < M"
      using bij [OF sjc(1)] sjc(2) by (auto simp: bij_betw_def)
    show ?thesis
    proof (cases "j < length (members batch s)")
      case True
      have "members batch s ! j \<in> set (members batch s)"
        using True by simp
      then have i: "members batch s ! j < N"
        by (simp add: set_members len)
      have "at2 x' (members batch s ! j) c = at2 x (p ! (members batch s ! j)) c"
        using i sjc by (simp add: x'_def permute_rows_def x)
      then show ?thesis
        using sjc \<sigma>M True low [OF sjc(1) True] by (simp add: xp_def xp'_def)
    next
      case False
      then have "\<sigma> s j = j" using high [OF sjc(1)] by simp
      then show ?thesis using sjc False by (simp add: xp_def xp'_def)
    qed
  qed
  have sxp: "shape xp = [B, M, C]" and sxp': "shape xp' = [B, M, C]"
    by (simp_all add: xp_def xp'_def)
  have lp: "loop call xp' B M n fr = loop call xp B M n fr"
    if "in_channels (self fr) = int C" for n and fr :: "'a frame"
    using sxp sxp' bij perm that by (rule loop_permuted)
  show ?thesis
    unfolding x'_def [symmetric] by (simp add: forward_def tb tb' sxp sxp' lp cfg)
qed

theorem forward_permutation_invariant_witness:
  "\<exists>out fr.
     forward to_batch_spec demo_lstm
       \<lparr>in_channels = 1, out_channels = 2, processing_steps = 3, num_layers = 1, lstm = 1\<rparr>
       (permute_rows [1, 0, 2] \<lparr>shape = [3, 1], data = [1, 2, 3]\<rparr>) [0, 0, 1] = Inr (out, fr) \<and>
     forward to_batch_spec demo_lstm
       \<lparr>in_channels = 1, out_channels = 2, processing_steps = 3, num_layers = 1, lstm = 1\<rparr>
       \<lparr>shape = [3, 1], data = [1, 2, 3]\<rparr> [0, 0, 1] = Inr (out, fr)"
proof -
  let ?slf = "\<lparr>in_channels = 1, out_channels = 2, processing_steps = 3, num_layers = 1,
    lstm = 1::real\<rparr>"
  let ?x = "\<lparr>shape = [3, 1], data = [1, 2, 3]\<rparr>"
  have m: "mset [1, 0, 2] = mset [0..<3::nat]"
    by (simp add: upt_rec)
  have s: "\<forall>i<3. [0, 0, 1::nat] ! ([1, 0, 2] ! i) = [0, 0, 1] ! i"
  proof (intro allI impI)
    fix i :: nat assume "i < 3"
    then consider "i = 0" | "i = 1" | "i = 2" by linarith
    then show "[0, 0, 1::nat] ! ([1, 0, 2] ! i) = [0, 0, 1] ! i"
      by cases simp_all
  qed
  have e: "forward to_batch_spec demo_lstm ?slf (permute_rows [1, 0, 2] ?x) [0, 0, 1] =
      forward to_batch_spec demo_lstm ?slf ?x [0, 0, 1]"
    using forward_permutation_invariant [of ?x 3 1 "[0, 0, 1]" "[1, 0, 2]" ?slf demo_lstm,
        OF _ _ m s]
    by simp
  from forward_run [of to_batch_spec ?x "[0, 0, 1]" _ _ 2 2 1 ?slf 1 demo_lstm, OF demo_to_batch]
  obtain out fr where "forward to_batch_spec demo_lstm ?slf ?x [0, 0, 1] = Inr (out, fr)"
    by (auto simp: lstm_ok_demo)
  with e show ?thesis by simp
qed

section \<open>Construction\<close>

text \<open>
  Claim C5 says that construction validates its configuration and raises a configuration
  error for a value that is not positive. The layer does not: even with a constructor of
  the recurrent primitive that refuses every non-positive size, \<open>processing_steps = -3\<close> is
  accepted and stored.
\<close>

theorem construction_counterexample:
  "Set2Set_init strict_LSTM Inr 1 (- 3) 1 =
     Inr \<lparr>in_channels = 1, out_channels = 2, processing_steps = - 3, num_layers = 1, lstm = 1\<rparr>"
  by (simp add: Set2Set_init_def reset_parameters_def strict_LSTM_def Let_def)

text \<open>
  Claim C5, amended. Construction checks nothing itself. It hands the sizes
  (2 * in_channels, in_channels, num_layers) to the constructor of the recurrent primitive
  and re-initialises the weights; it fails exactly when one of these two fails, and
  otherwise stores \<open>in_channels\<close>, \<open>processing_steps\<close> and \<open>num_layers\<close> as given, with
  \<open>out_channels\<close> derived as \<open>2 * in_channels\<close>. So \<open>processing_steps\<close> is never checked.
  None of these values change after construction: neither \<^verbatim>\<open>reset_parameters\<close> nor
  \<^verbatim>\<open>forward\<close> changes any of the four fields.
\<close>

theorem construction_unvalidated:
  "Set2Set_init LSTM reset inc steps layers =
     ebind (LSTM (2 * inc) inc layers) (\<lambda>w. ebind (reset w) (\<lambda>w'.
       Inr \<lparr>in_channels = inc, out_channels = 2 * inc, processing_steps = steps,
            num_layers = layers, lstm = w'\<rparr>)) \<and>
   (reset_parameters reset slf = Inr slf' \<longrightarrow>
      in_channels slf' = in_channels slf \<and> out_channels slf' = out_channels slf \<and>
      processing_steps slf' = processing_steps slf \<and> num_layers slf' = num_layers slf) \<and>
   (forward tb call slf x batch = Inr (out, fr) \<longrightarrow>
      in_channels (self fr) = in_channels slf \<and> out_channels (self fr) = out_channels slf \<and>
      processing_steps (self fr) = processing_steps slf \<and> num_layers (self fr) = num_layers slf)"
proof -
  have "Set2Set_init LSTM reset inc steps layers =
     ebind (LSTM (2 * inc) inc layers) (\<lambda>w. ebind (reset w) (\<lambda>w'.
       Inr \<lparr>in_channels = inc, out_channels = 2 * inc, processing_steps = steps,
            num_layers = layers, lstm = w'\<rparr>))"
    by (simp add: Set2Set_init_def reset_parameters_def Let_def)
  moreover have "self fr = slf" if "forward tb call slf x batch = Inr (out, fr)"
    using forward_self [OF that] by simp
  moreover have "in_channels slf' = in_channels slf \<and> out_channels slf' = out_channels slf \<and>
      processing_steps slf' = processing_steps slf \<and> num_layers slf' = num_layers slf"
    if "reset_parameters reset slf = Inr slf'"
    using that by (auto simp: reset_parameters_def ebind_eq_Inr)
  ultimately show ?thesis by simp
qed

theorem construction_unvalidated_witness:
  "Set2Set_init strict_LSTM Inr 1 0 1 =
     Inr \<lparr>in_channels = 1, out_channels = 2, processing_steps = 0, num_layers = 1, lstm = 1\<rparr> \<and>
   reset_parameters Inr
       \<lparr>in_channels = 1, out_channels = 2, processing_steps = 0, num_layers = 1, lstm = 1::real\<rparr> =
     Inr \<lparr>in_channels = 1, out_channels = 2, processing_steps = 0, num_layers = 1, lstm = 1\<rparr> \<and>
   (\<exists>out fr. forward to_batch_spec demo_lstm
       \<lparr>in_channels = 1, out_channels = 2, processing_steps = 0, num_layers = 1, lstm = 1\<rparr>
       \<lparr>shape = [3, 1], data = [1, 2, 3]\<rparr> [0, 0, 1] = Inr (out, fr) \<and>
     processing_steps (self fr) = 0 \<and> out_channels (self fr) = 2)"
proof -
  let ?slf = "\<lparr>in_channels = 1, out_channels = 2, processing_steps = 0, num_layers = 1,
    lstm = 1::real\<rparr>"
  let ?x = "\<lparr>shape = [3, 1], data = [1, 2, 3]\<rparr>"
  have rp: "reset_parameters Inr ?slf = Inr ?slf"
    by (simp add: reset_parameters_def)
  from forward_run [of to_batch_spec ?x "[0, 0, 1]" _ _ 2 2 1 ?slf 1 demo_lstm, OF demo_to_batch]
  obtain out fr where r: "forward to_batch_spec demo_lstm ?slf ?x [0, 0, 1] = Inr (out, fr)"
    by (auto simp: lstm_ok_demo)
  from construction_unvalidated [where LSTM = strict_LSTM and reset = Inr and inc = 1
      and steps = 0 and layers = 1 and slf = ?slf and slf' = ?slf and tb = to_batch_spec
      and call = demo_lstm and x = ?x and batch = "[0, 0, 1]" and out = out and fr = fr] r rp
  show ?thesis by (auto simp: strict_LSTM_def)
qed

end
